(* ===== verification/Prelude.thy ===== *)
theory Prelude
  imports Complex_Main
begin

text \<open>
  Shared vocabulary of the development: the Python exceptions the script can raise, the
  error monad used to thread them, basis states of an \<open>n\<close>-qubit register as bit lists
  (qubit \<open>i\<close> is element \<open>i\<close>, so element 0 is the least significant qubit, as in
  Qiskit), real amplitude vectors over basis states, the bit-string labels Qiskit prints
  (most significant qubit first), and Python's \<open>str.startswith(prefix, start)\<close>;
  with the lemmas on sums over basis states that the components share.
\<close>

named_theorems gate_simps "equations of the gate semantics, used by the circuit proofs"

section \<open>Errors\<close>

text \<open>
  The Python exceptions that the modelled code raises, by their Python names;
  \<open>IBMRuntimeError\<close> stands for any failure of the IBM runtime service (missing
  credentials, network, job errors).
\<close>

datatype py_error =
    IndexError
  | AttributeError
  | CircuitError
  | ZeroDivisionError
  | OverflowError
  | IBMRuntimeError

definition sbind :: "py_error + 'a \<Rightarrow> ('a \<Rightarrow> py_error + 'b) \<Rightarrow> py_error + 'b" where
  "sbind r f = (case r of Inl e \<Rightarrow> Inl e | Inr x \<Rightarrow> f x)"

lemma sbind_Inl [simp]: "sbind (Inl e) f = Inl e"
  by (simp add: sbind_def)

lemma sbind_Inr [simp]: "sbind (Inr x) f = f x"
  by (simp add: sbind_def)

lemma sbind_eq_Inr_iff: "sbind r f = Inr y \<longleftrightarrow> (\<exists>x. r = Inr x \<and> f x = Inr y)"
  by (cases r) auto

section \<open>Basis states and amplitude vectors\<close>

type_synonym basis = "bool list"
type_synonym amps = "basis \<Rightarrow> real"

text \<open>The squared norm of an amplitude vector on \<open>n\<close> qubits.\<close>

abbreviation norm2 :: "nat \<Rightarrow> amps \<Rightarrow> real" where
  "norm2 n v \<equiv> \<Sum>b | length b = n. (v b)\<^sup>2"

definition basis_states :: "nat \<Rightarrow> basis list" where
  "basis_states n = List.n_lists n [False, True]"

lemma set_basis_states [simp]: "set (basis_states n) = {b. length b = n}"
  by (auto simp: basis_states_def set_n_lists)

lemma distinct_basis_states [simp]: "distinct (basis_states n)"
  by (simp add: basis_states_def distinct_n_lists)

lemma length_basis_states [simp]: "length (basis_states n) = 2 ^ n"
  by (simp add: basis_states_def length_n_lists numeral_2_eq_2)

lemma finite_basis [simp]: "finite {b :: basis. length b = n}"
  using finite_set [of "basis_states n"] by simp

lemma card_basis [simp]: "card {b :: basis. length b = n} = 2 ^ n"
  using distinct_card [of "basis_states n"] by simp

text \<open>The sum of a vector's entries over the \<open>2 ^ n\<close> basis states, executable.\<close>

definition amp_sum :: "nat \<Rightarrow> amps \<Rightarrow> real" where
  "amp_sum n v = sum_list (map v (basis_states n))"

lemma amp_sum_eq: "amp_sum n v = (\<Sum>b | length b = n. v b)"
  by (simp add: amp_sum_def sum_list_distinct_conv_sum_set)

lemma amp_sum_cong:
  "(\<And>b. length b = n \<Longrightarrow> v b = w b) \<Longrightarrow> amp_sum n v = amp_sum n w"
  by (simp add: amp_sum_eq)

lemma amp_sum_linear:
  "amp_sum n (\<lambda>b. c * v b + d * w b) = c * amp_sum n v + d * amp_sum n w"
  by (simp add: amp_sum_eq sum.distrib sum_distrib_left)

text \<open>A sum over \<open>k + 1\<close> qubits splits on the first one.\<close>

lemma sum_basis_Suc:
  "(\<Sum>c | length c = Suc k. f c) = (\<Sum>c | length c = k. f (False # c) + f (True # c))"
proof -
  let ?A = "{c :: basis. length c = k}"
  have split: "{c :: basis. length c = Suc k} = Cons False ` ?A \<union> Cons True ` ?A"
    by (auto simp: length_Suc_conv image_iff)
  have "(\<Sum>c \<in> Cons False ` ?A \<union> Cons True ` ?A. f c) =
        (\<Sum>c \<in> Cons False ` ?A. f c) + (\<Sum>c \<in> Cons True ` ?A. f c)"
    by (rule sum.union_disjoint) auto
  also have "\<dots> = (\<Sum>c \<in> ?A. f (False # c)) + (\<Sum>c \<in> ?A. f (True # c))"
    by (simp add: sum.reindex)
  finally show ?thesis
    using split by (simp add: sum.distrib)
qed

lemma sum_basis_0: "(\<Sum>c | length c = 0. f c) = f []"
  by simp

text \<open>Flipping qubit \<open>i\<close> of a basis state.\<close>

definition flip_bit :: "nat \<Rightarrow> basis \<Rightarrow> basis" where
  "flip_bit i b = b[i := \<not> b ! i]"

lemma length_flip_bit [simp]: "length (flip_bit i b) = length b"
  by (simp add: flip_bit_def)

lemma nth_flip_bit [simp]:
  "j < length b \<Longrightarrow> flip_bit i b ! j = (if i = j then \<not> b ! j else b ! j)"
  by (simp add: flip_bit_def nth_list_update)

lemma flip_bit_flip_bit [simp]: "flip_bit i (flip_bit i b) = b"
  by (cases "i < length b") (simp_all add: flip_bit_def list_update_beyond)

lemma flip_bit_update_same [simp]: "(flip_bit i b)[i := x] = b[i := x]"
  by (simp add: flip_bit_def)

lemma flip_bit_commute: "flip_bit i (flip_bit j b) = flip_bit j (flip_bit i b)"
  by (cases "i < length b"; cases "j < length b")
    (auto simp: flip_bit_def nth_list_update list_update_swap list_update_beyond)

text \<open>
  Reindexing sums over basis states: by an involution, and by pairing the states that
  differ only in qubit \<open>i\<close>.
\<close>

lemma sum_involution:
  assumes "\<And>b. b \<in> B \<Longrightarrow> f b \<in> B \<and> f (f b) = b"
  shows "(\<Sum>b \<in> B. g (f b)) = (\<Sum>b \<in> B. g b)"
  by (rule sum.reindex_bij_witness [where i = f and j = f]) (use assms in auto)

lemma sum_split_bit:
  assumes i: "i < n"
  shows "(\<Sum>b | length b = n. g b) = (\<Sum>b | length b = n \<and> \<not> b ! i. g b + g (b[i := True]))"
proof -
  let ?B0 = "{b :: basis. length b = n \<and> \<not> b ! i}" and ?B1 = "{b :: basis. length b = n \<and> b ! i}"
  have fin: "finite ?B0" "finite ?B1"
    by (rule finite_subset [OF _ finite_basis [of n]], blast)+
  have "{b :: basis. length b = n} = ?B0 \<union> ?B1" by blast
  moreover have "?B0 \<inter> ?B1 = {}" by blast
  ultimately have "(\<Sum>b | length b = n. g b) = (\<Sum>b \<in> ?B0. g b) + (\<Sum>b \<in> ?B1. g b)"
    using fin by (simp only: sum.union_disjoint)
  also have "(\<Sum>b \<in> ?B1. g b) = (\<Sum>b \<in> ?B0. g (b[i := True]))"
  proof (rule sum.reindex_bij_witness [where i = "\<lambda>b. b[i := True]" and j = "\<lambda>b. b[i := False]"])
    fix a assume a: "a \<in> ?B1"
    then have e: "a[i := True] = a" using i by (simp add: list_update_same_conv)
    show "(a[i := False])[i := True] = a" and "g ((a[i := False])[i := True]) = g a"
      using e by simp_all
    show "a[i := False] \<in> ?B0" using a i by simp
  next
    fix b assume "b \<in> ?B0"
    then show "(b[i := True])[i := False] = b" and "b[i := True] \<in> ?B1"
      using i by (simp_all add: list_update_same_conv)
  qed
  finally show ?thesis by (simp add: sum.distrib)
qed

section \<open>Bit-strings\<close>

text \<open>
  A marked state is a Python string over \<open>'0'\<close> and \<open>'1'\<close>. Qiskit maps the last
  character to qubit 0: the string is reversed before it is read as a basis state, and a
  measured basis state is printed with its highest qubit first.
\<close>

definition is_bitstring :: "string \<Rightarrow> bool" where
  "is_bitstring s \<longleftrightarrow> list_all (\<lambda>c. c = CHR ''0'' \<or> c = CHR ''1'') s"

definition char_of_bit :: "bool \<Rightarrow> char" where
  "char_of_bit x = (if x then CHR ''1'' else CHR ''0'')"

definition basis_of_string :: "string \<Rightarrow> basis" where
  "basis_of_string s = map (\<lambda>c. c = CHR ''1'') (rev s)"

definition label_of_basis :: "basis \<Rightarrow> string" where
  "label_of_basis b = rev (map char_of_bit b)"

lemma length_basis_of_string [simp]: "length (basis_of_string s) = length s"
  by (simp add: basis_of_string_def)

lemma length_label_of_basis [simp]: "length (label_of_basis b) = length b"
  by (simp add: label_of_basis_def)

lemma char_of_bit_cases: "char_of_bit x = CHR ''0'' \<or> char_of_bit x = CHR ''1''"
  by (simp add: char_of_bit_def)

lemma is_bitstring_label [simp]: "is_bitstring (label_of_basis b)"
  by (simp add: is_bitstring_def label_of_basis_def list_all_iff char_of_bit_cases)

lemma basis_of_label [simp]: "basis_of_string (label_of_basis b) = b"
  by (simp add: basis_of_string_def label_of_basis_def comp_def char_of_bit_def
      map_idI)

lemma label_of_basis_of_string:
  "is_bitstring s \<Longrightarrow> label_of_basis (basis_of_string s) = s"
  by (induction s)
    (auto simp: is_bitstring_def label_of_basis_def basis_of_string_def char_of_bit_def)

lemma basis_of_string_inj:
  "is_bitstring s \<Longrightarrow> is_bitstring t \<Longrightarrow> basis_of_string s = basis_of_string t \<Longrightarrow> s = t"
  by (metis label_of_basis_of_string)

section \<open>Python's \<open>str.startswith(prefix, start)\<close>\<close>

text \<open>
  \<open>s.startswith(p, i)\<close> tests \<open>s[i:]\<close> against \<open>p\<close>, and is \<open>False\<close> when
  \<open>i > len(s)\<close> (also for the empty prefix).
\<close>

definition py_startswith :: "string \<Rightarrow> string \<Rightarrow> nat \<Rightarrow> bool" where
  "py_startswith s p i \<longleftrightarrow> i \<le> length s \<and> take (length p) (drop i s) = p"

lemma py_startswith_char [simp]:
  "py_startswith s [c] i \<longleftrightarrow> i < length s \<and> s ! i = c"
  by (cases "i < length s") (auto simp: py_startswith_def take_Suc_conv_app_nth)

section \<open>Lists\<close>

lemma count_list_distinct:
  "distinct xs \<Longrightarrow> count_list xs x = (if x \<in> set xs then 1 else 0)"
  by (induction xs) auto

lemma length_takeWhile_less_mem:
  "x \<in> set xs \<Longrightarrow> \<not> P x \<Longrightarrow> length (takeWhile P xs) < length xs"
  by (induction xs) auto

lemma length_filter_eq_distinct:
  "distinct xs \<Longrightarrow> length (filter (\<lambda>y. y = x) xs) = (if x \<in> set xs then 1 else 0)"
  by (induction xs) auto

end
