(* ===== verification/Circuit.thy ===== *)
theory Circuit
  imports Prelude
begin

text \<open>
  The part of Qiskit's \<open>QuantumCircuit\<close> that \<open>src/main_2.py\<close> uses: a circuit is a
  register width, a list of instructions and a global phase (only \<open>0\<close> and \<open>\<pi>\<close>
  occur, so it is a flag). The builder methods the script calls (\<open>x\<close>, \<open>h\<close>,
  \<open>compose\<close>, \<open>measure_all\<close>, \<open>power\<close>) are functions from circuits to circuits,
  raising \<open>CircuitError\<close> where Qiskit does (a qubit index out of range, a wider circuit
  composed onto a narrower one). The semantics acts on real amplitude vectors: every gate
  the script uses (X, Z, H, multi-controlled X and Z) has a real matrix. The last section
  shows every well-formed circuit preserves the norm of the vector it runs on.
\<close>

section \<open>Gates, instructions, circuits\<close>

datatype gate =
    X nat
  | Z nat
  | H nat
  | MCX "nat list" nat
  | MCZ "nat list" nat

text \<open>
  \<open>Composite body neg\<close> is a circuit turned into one gate by \<open>to_gate()\<close>, with its
  global phase (\<open>neg\<close> for \<open>\<pi>\<close>); \<open>power(k)\<close> produces \<open>k\<close> copies of it.
\<close>

datatype instr =
    Op gate
  | Composite "instr list" bool
  | Barrier
  | Measure nat

record qcircuit =
  num_qubits :: nat
  data :: "instr list"
  global_phase_pi :: bool

definition empty_circuit :: "nat \<Rightarrow> qcircuit" where
  "empty_circuit n = \<lparr>num_qubits = n, data = [], global_phase_pi = False\<rparr>"

fun gate_qubits :: "gate \<Rightarrow> nat list" where
  "gate_qubits (X i) = [i]"
| "gate_qubits (Z i) = [i]"
| "gate_qubits (H i) = [i]"
| "gate_qubits (MCX cs t) = cs @ [t]"
| "gate_qubits (MCZ cs t) = cs @ [t]"

section \<open>Builder methods\<close>

text \<open>\<open>qc.x(qubits)\<close> and \<open>qc.h(qubits)\<close>: one gate per listed qubit, in order.\<close>

definition append_1q :: "(nat \<Rightarrow> gate) \<Rightarrow> nat list \<Rightarrow> qcircuit \<Rightarrow> py_error + qcircuit" where
  "append_1q g qs qc =
     (if list_all (\<lambda>q. q < num_qubits qc) qs
      then Inr (qc\<lparr>data := data qc @ map (Op \<circ> g) qs\<rparr>)
      else Inl CircuitError)"

abbreviation qc_x :: "nat list \<Rightarrow> qcircuit \<Rightarrow> py_error + qcircuit" where
  "qc_x \<equiv> append_1q X"

abbreviation qc_h :: "nat list \<Rightarrow> qcircuit \<Rightarrow> py_error + qcircuit" where
  "qc_h \<equiv> append_1q H"

text \<open>
  \<open>qc.compose(other, inplace=True)\<close> without a qubit map: qubit \<open>i\<close> of \<open>other\<close>
  goes to qubit \<open>i\<close>; the phases add.
\<close>

definition qc_compose :: "qcircuit \<Rightarrow> qcircuit \<Rightarrow> py_error + qcircuit" where
  "qc_compose qc other =
     (if num_qubits other \<le> num_qubits qc
      then Inr (qc\<lparr>data := data qc @ data other,
                   global_phase_pi := (global_phase_pi qc \<noteq> global_phase_pi other)\<rparr>)
      else Inl CircuitError)"

text \<open>\<open>qc.measure_all()\<close>: a barrier, then qubit \<open>i\<close> measured into clbit \<open>i\<close>.\<close>

definition qc_measure_all :: "qcircuit \<Rightarrow> qcircuit" where
  "qc_measure_all qc =
     qc\<lparr>data := data qc @ Barrier # map Measure [0..<num_qubits qc]\<rparr>"

text \<open>
  \<open>qc.power(k)\<close> for an integer \<open>k \<ge> 0\<close> is \<open>qc.repeat(k)\<close>: a circuit of the same
  width holding \<open>k\<close> copies of \<open>qc.to_gate()\<close>.
\<close>

definition qc_power :: "qcircuit \<Rightarrow> nat \<Rightarrow> qcircuit" where
  "qc_power qc k =
     \<lparr>num_qubits = num_qubits qc,
      data = replicate k (Composite (data qc) (global_phase_pi qc)),
      global_phase_pi = False\<rparr>"

text \<open>
  \<open>qc.decompose()\<close> (shallow, one level): every instruction built by \<open>to_gate()\<close> is
  replaced by the instructions of its definition, and the gate's global phase moves to the
  circuit. Gates of the standard library are kept: Qiskit rewrites them into \<open>U\<close> gates of
  the same matrix, which the model does not distinguish.
\<close>

fun decompose_instrs :: "instr list \<Rightarrow> instr list \<times> bool" where
  "decompose_instrs [] = ([], False)"
| "decompose_instrs (Composite body neg # is) =
     (let (r, p) = decompose_instrs is in (body @ r, neg \<noteq> p))"
| "decompose_instrs (i # is) = (let (r, p) = decompose_instrs is in (i # r, p))"

definition qc_decompose :: "qcircuit \<Rightarrow> qcircuit" where
  "qc_decompose qc =
     (let (d, p) = decompose_instrs (data qc)
      in qc\<lparr>data := d, global_phase_pi := (global_phase_pi qc \<noteq> p)\<rparr>)"

section \<open>Semantics on amplitude vectors\<close>

text \<open>
  A gate maps the vector \<open>v\<close> to \<open>U v\<close>. X and MCX permute basis states and are their
  own inverses, so \<open>(U v) b = v (U b)\<close>; Z and MCZ negate the entries whose qubits are
  all 1; H on qubit \<open>i\<close> mixes the two entries that differ in bit \<open>i\<close>.
\<close>

fun apply_gate :: "gate \<Rightarrow> amps \<Rightarrow> amps" where
  "apply_gate (X i) v = (\<lambda>b. v (flip_bit i b))"
| "apply_gate (Z i) v = (\<lambda>b. if b ! i then - v b else v b)"
| "apply_gate (H i) v =
     (\<lambda>b. (v (b[i := False]) + (if b ! i then -1 else 1) * v (b[i := True])) / sqrt 2)"
| "apply_gate (MCX cs t) v =
     (\<lambda>b. if list_all (\<lambda>c. b ! c) cs then v (flip_bit t b) else v b)"
| "apply_gate (MCZ cs t) v =
     (\<lambda>b. if list_all (\<lambda>c. b ! c) (cs @ [t]) then - v b else v b)"

text \<open>
  Barriers do nothing; measurements are terminal in every circuit the script builds, so
  their effect is read off the final vector (\<open>probability\<close> below) and the vector itself
  is left as it is.
\<close>

fun exec_instr :: "instr \<Rightarrow> amps \<Rightarrow> amps"
  and exec_instrs :: "instr list \<Rightarrow> amps \<Rightarrow> amps" where
  "exec_instr (Op g) v = apply_gate g v"
| "exec_instr (Composite body neg) v =
     (let w = exec_instrs body v in if neg then (\<lambda>b. - w b) else w)"
| "exec_instr Barrier v = v"
| "exec_instr (Measure q) v = v"
| "exec_instrs [] v = v"
| "exec_instrs (i # is) v = exec_instrs is (exec_instr i v)"

definition run_circuit :: "qcircuit \<Rightarrow> amps \<Rightarrow> amps" where
  "run_circuit qc v =
     (let w = exec_instrs (data qc) v in if global_phase_pi qc then (\<lambda>b. - w b) else w)"

definition ket :: "basis \<Rightarrow> amps" where
  "ket x = (\<lambda>b. if b = x then 1 else 0)"

text \<open>Probability of reading basis state \<open>b\<close> when the circuit runs on \<open>|0\<dots>0\<rangle>\<close>.\<close>

definition probability :: "qcircuit \<Rightarrow> basis \<Rightarrow> real" where
  "probability qc b = (run_circuit qc (ket (replicate (num_qubits qc) False)) b)\<^sup>2"

section \<open>Well-formed circuits\<close>

fun wf_gate :: "nat \<Rightarrow> gate \<Rightarrow> bool" where
  "wf_gate n (MCX cs t) \<longleftrightarrow> list_all (\<lambda>q. q < n) (cs @ [t]) \<and> distinct (cs @ [t])"
| "wf_gate n (MCZ cs t) \<longleftrightarrow> list_all (\<lambda>q. q < n) (cs @ [t]) \<and> distinct (cs @ [t])"
| "wf_gate n g \<longleftrightarrow> list_all (\<lambda>q. q < n) (gate_qubits g)"

fun wf_instr :: "nat \<Rightarrow> instr \<Rightarrow> bool" where
  "wf_instr n (Op g) \<longleftrightarrow> wf_gate n g"
| "wf_instr n (Composite body neg) \<longleftrightarrow> (\<forall>i \<in> set body. wf_instr n i)"
| "wf_instr n Barrier \<longleftrightarrow> True"
| "wf_instr n (Measure q) \<longleftrightarrow> q < n"

definition wf_circuit :: "qcircuit \<Rightarrow> bool" where
  "wf_circuit qc \<longleftrightarrow> (\<forall>i \<in> set (data qc). wf_instr (num_qubits qc) i)"

section \<open>Lemmas on the semantics\<close>

lemma exec_instrs_append [simp]:
  "exec_instrs (xs @ ys) v = exec_instrs ys (exec_instrs xs v)"
  by (induction xs arbitrary: v) auto

text \<open>A layer of X gates permutes basis states by flipping the listed qubits.\<close>

definition flip_bits :: "nat list \<Rightarrow> basis \<Rightarrow> basis" where
  "flip_bits qs b = foldr flip_bit qs b"

lemma flip_bits_Nil [simp]: "flip_bits [] b = b"
  and flip_bits_Cons [simp]: "flip_bits (q # qs) b = flip_bit q (flip_bits qs b)"
  by (simp_all add: flip_bits_def)

lemma length_flip_bits [simp]: "length (flip_bits qs b) = length b"
  by (induction qs) simp_all

lemma nth_flip_bits:
  "j < length b \<Longrightarrow> flip_bits qs b ! j = (b ! j \<noteq> odd (count_list qs j))"
  by (induction qs) auto

lemma flip_bits_flip_bits [simp]: "flip_bits qs (flip_bits qs b) = b"
  by (rule nth_equalityI) (auto simp: nth_flip_bits)

lemma exec_x_layer [gate_simps]:
  "exec_instrs (map (Op \<circ> X) qs) v = (\<lambda>b. v (flip_bits qs b))"
  by (induction qs arbitrary: v) simp_all

text \<open>
  An MCZ conjugated by an X layer negates exactly the basis states that the layer maps to
  all-ones on the MCZ's qubits: the usual open-control construction.
\<close>

lemma exec_conjugated_mcz [gate_simps]:
  "exec_instrs (map (Op \<circ> X) qs @ [Op (MCZ cs t)] @ map (Op \<circ> X) qs) v =
     (\<lambda>b. if list_all (\<lambda>c. flip_bits qs b ! c) (cs @ [t]) then - v b else v b)"
  by (simp add: exec_x_layer cong: if_cong)

lemma run_circuit_no_phase:
  "\<not> global_phase_pi qc \<Longrightarrow> run_circuit qc v = exec_instrs (data qc) v"
  by (simp add: run_circuit_def)

section \<open>Every well-formed circuit preserves the norm\<close>

text \<open>
  Each gate is unitary: X and MCX permute the basis states (MCX only when its target is
  not a control), Z and MCZ change signs, H is a rotation on each pair of states that
  differ in its qubit. Hence the ideal outcome distribution of a well-formed circuit run
  on a unit vector always sums to 1.
\<close>

lemma norm2_flip_bit: "norm2 n (\<lambda>b. v (flip_bit i b)) = norm2 n v"
  using sum_involution [of "{b. length b = n}" "flip_bit i" "\<lambda>b. (v b)\<^sup>2"] by simp

lemma norm2_sign: "norm2 n (\<lambda>b. if P b then - v b else v b) = norm2 n v"
  by (rule sum.cong) simp_all

lemma norm2_hadamard:
  assumes i: "i < n"
  shows "norm2 n (\<lambda>b. (v (b[i := False]) + (if b ! i then -1 else 1) * v (b[i := True])) / sqrt 2) =
         norm2 n v"
proof -
  have sq: "((x + y) / sqrt 2)\<^sup>2 + ((x + -1 * y) / sqrt 2)\<^sup>2 = x\<^sup>2 + y\<^sup>2" for x y :: real
    by (simp add: power_divide power2_eq_square field_simps)
  have pair: "((v (b[i := False]) + (if b ! i then -1 else 1) * v (b[i := True])) / sqrt 2)\<^sup>2 +
              ((v ((b[i := True])[i := False]) + (if b[i := True] ! i then -1 else 1) *
                 v ((b[i := True])[i := True])) / sqrt 2)\<^sup>2 =
              (v b)\<^sup>2 + (v (b[i := True]))\<^sup>2"
    if b: "b \<in> {b. length b = n \<and> \<not> b ! i}" for b
  proof -
    have "b[i := False] = b" using b i by (simp add: list_update_same_conv)
    moreover have "b[i := True] ! i" using b i by simp
    ultimately show ?thesis using b sq [of "v b" "v (b[i := True])"] by simp
  qed
  show ?thesis
    unfolding sum_split_bit [OF i, of "\<lambda>b. (v b)\<^sup>2"] sum_split_bit [OF i]
    by (rule sum.cong) (simp_all only: pair)
qed

lemma norm2_mcx:
  assumes t: "t \<notin> set cs"
  shows "norm2 n (\<lambda>b. if list_all (\<lambda>c. b ! c) cs then v (flip_bit t b) else v b) = norm2 n v"
proof -
  let ?f = "\<lambda>b. if list_all (\<lambda>c. b ! c) cs then flip_bit t b else b"
  have keep: "list_all (\<lambda>c. flip_bit t b ! c) cs = list_all (\<lambda>c. b ! c) cs" for b
  proof (cases "t < length b")
    case True
    then show ?thesis using t by (auto simp: list_all_iff flip_bit_def nth_list_update)
  next
    case False
    then show ?thesis by (simp add: flip_bit_def list_update_beyond)
  qed
  have inv: "?f b \<in> {b. length b = n} \<and> ?f (?f b) = b" if "b \<in> {b. length b = n}" for b
    using that by (simp add: keep)
  have "norm2 n (\<lambda>b. if list_all (\<lambda>c. b ! c) cs then v (flip_bit t b) else v b) =
        (\<Sum>b | length b = n. (v (?f b))\<^sup>2)"
    by (rule sum.cong) simp_all
  also have "\<dots> = norm2 n v" using inv by (rule sum_involution)
  finally show ?thesis .
qed

lemma apply_gate_norm2:
  "wf_gate n g \<Longrightarrow> norm2 n (apply_gate g v) = norm2 n v"
  by (cases g) (simp_all add: norm2_flip_bit norm2_sign norm2_hadamard norm2_mcx)

lemma exec_norm2:
  "wf_instr n i \<Longrightarrow> norm2 n (exec_instr i v) = norm2 n v"
  "(\<forall>j \<in> set is. wf_instr n j) \<Longrightarrow> norm2 n (exec_instrs is v) = norm2 n v"
proof (induction i v and "is" v rule: exec_instr_exec_instrs.induct)
  case (2 body neg v)
  then show ?case by (simp add: Let_def)
qed (simp_all add: apply_gate_norm2)

lemma run_circuit_norm2:
  "wf_circuit qc \<Longrightarrow> norm2 (num_qubits qc) (run_circuit qc v) = norm2 (num_qubits qc) v"
  using exec_norm2(2) [of "data qc" "num_qubits qc" v]
  by (simp add: run_circuit_def wf_circuit_def Let_def)

lemma norm2_ket: "length x = n \<Longrightarrow> norm2 n (ket x) = 1"
proof -
  assume x: "length x = n"
  have "norm2 n (ket x) = (\<Sum>b | length b = n. if b = x then 1 else 0)"
    by (rule sum.cong) (simp_all add: ket_def)
  also have "\<dots> = 1" using x by (simp add: sum.delta [OF finite_basis])
  finally show ?thesis .
qed

text \<open>The outcome probabilities of a well-formed circuit run from \<open>|0\<dots>0\<rangle>\<close> sum to 1.\<close>

lemma probability_sum:
  assumes "wf_circuit qc"
  shows "(\<Sum>b | length b = num_qubits qc. probability qc b) = 1"
proof -
  have "norm2 (num_qubits qc) (run_circuit qc (ket (replicate (num_qubits qc) False))) = 1"
    using assms by (simp add: run_circuit_norm2 norm2_ket)
  then show ?thesis by (simp add: probability_def)
qed

end
