(* ===== verification/Oracle.thy ===== *)
theory Oracle
  imports Circuit
begin

text \<open>
  The oracle builder \<open>grover_oracle\<close> of \<open>src/main_2.py\<close> (lines 38--66): the
  input normalisation (a single string is wrapped in a list), the register width taken from
  the first marked state, and the loop that appends, for each target, X gates on the
  qubits whose reversed bit is \<open>'0'\<close>, a multi-controlled Z from Qiskit's \<open>MCMT\<close>, and
  the same X gates again. Qiskit's \<open>MCMT\<close> is modelled with its errors (no control qubit:
  \<open>AttributeError\<close>; a negative number of controls: \<open>CircuitError\<close>). The lemmas give the exact
  circuit built, its error cases, its well-formedness, and its action on amplitudes:
  a phase flip on exactly the basis states that an odd number of targets match, hence on
  exactly the marked states when they are distinct bit-strings of the register's width.
\<close>

section \<open>Definitions\<close>

text \<open>The argument is a \<open>str\<close> or a \<open>list\<close> of \<open>str\<close>.\<close>

datatype marked_input = MarkedStr string | MarkedList "string list"

text \<open>Lines 49--50: a non-list argument is wrapped in a one-element list.\<close>

definition marked_list :: "marked_input \<Rightarrow> string list" where
  "marked_list m = (case m of MarkedStr s \<Rightarrow> [s] | MarkedList ms \<Rightarrow> ms)"

text \<open>Lines 58--60: the indices \<open>ind < num_qubits\<close> at which the reversed target starts with \<open>'0'\<close>.\<close>

definition zero_inds :: "nat \<Rightarrow> string \<Rightarrow> nat list" where
  "zero_inds n target =
     (let rev_target = rev target
      in filter (\<lambda>ind. py_startswith rev_target ''0'' ind) [0..<n])"

text \<open>
  Qiskit's \<open>MCMT(ZGate(), num_ctrl_qubits, 1)\<close> as line 64 calls it: controls are qubits
  \<open>0 \<dots> c - 1\<close>, the target is qubit \<open>c\<close>. Its constructor raises \<open>AttributeError\<close> when
  \<open>num_ctrl_qubits == 0\<close>; a negative count (\<open>num_qubits - 1 = -1\<close> for an empty marked
  state) passes that test and fails in \<open>ZGate().control(c)\<close> with \<open>CircuitError\<close>. The
  argument is a Python integer.
\<close>

definition mcmt_z :: "int \<Rightarrow> py_error + qcircuit" where
  "mcmt_z c =
     (if c = 0 then Inl AttributeError
      else if c < 0 then Inl CircuitError
      else Inr \<lparr>num_qubits = nat c + 1, data = [Op (MCZ [0..<nat c] (nat c))],
                global_phase_pi = False\<rparr>)"

text \<open>The exception \<open>MCMT(ZGate(), n - 1, 1)\<close> raises for a register of \<open>n < 2\<close> qubits.\<close>

definition mcmt_error :: "nat \<Rightarrow> py_error" where
  "mcmt_error n = (if n = 0 then CircuitError else AttributeError)"

text \<open>One iteration of the loop, lines 56--65, on the circuit \<open>qc\<close> built so far.\<close>

definition mark_target :: "nat \<Rightarrow> qcircuit \<Rightarrow> string \<Rightarrow> py_error + qcircuit" where
  "mark_target n qc target =
     (let zs = zero_inds n target
      in sbind (qc_x zs qc) (\<lambda>qc.
         sbind (mcmt_z (int n - 1)) (\<lambda>mcmt.
         sbind (qc_compose qc mcmt) (\<lambda>qc.
         qc_x zs qc))))"

text \<open>The loop \<open>for target in marked_states\<close>; an exception ends it.\<close>

fun mark_targets :: "nat \<Rightarrow> qcircuit \<Rightarrow> string list \<Rightarrow> py_error + qcircuit" where
  "mark_targets n qc [] = Inr qc"
| "mark_targets n qc (target # rest) =
     sbind (mark_target n qc target) (\<lambda>qc'. mark_targets n qc' rest)"

text \<open>Lines 38--66. \<open>marked_states[0]\<close> raises \<open>IndexError\<close> on an empty list.\<close>

definition grover_oracle :: "marked_input \<Rightarrow> py_error + qcircuit" where
  "grover_oracle marked_states =
     (let ms = marked_list marked_states
      in case ms of
           [] \<Rightarrow> Inl IndexError
         | m0 # _ \<Rightarrow> mark_targets (length m0) (empty_circuit (length m0)) ms)"

text \<open>
  The instructions one loop iteration appends, and the condition under which they flip
  the phase of basis state \<open>b\<close>: every qubit \<open>j < n\<close> is 1 exactly where the reversed
  target does not start with \<open>'0'\<close> at \<open>j\<close>.
\<close>

definition target_gates :: "nat \<Rightarrow> string \<Rightarrow> instr list" where
  "target_gates n target =
     map (Op \<circ> X) (zero_inds n target) @ [Op (MCZ [0..<n - 1] (n - 1))]
       @ map (Op \<circ> X) (zero_inds n target)"

definition target_matches :: "nat \<Rightarrow> string \<Rightarrow> basis \<Rightarrow> bool" where
  "target_matches n target b \<longleftrightarrow>
     list_all (\<lambda>j. b ! j \<longleftrightarrow> \<not> py_startswith (rev target) ''0'' j) [0..<n]"

section \<open>The circuit built\<close>

lemma set_zero_inds:
  "set (zero_inds n t) = {j. j < n \<and> py_startswith (rev t) ''0'' j}"
  by (auto simp: zero_inds_def)

lemma distinct_zero_inds [simp]: "distinct (zero_inds n t)"
  by (simp add: zero_inds_def)

lemma zero_inds_bound [simp]: "list_all (\<lambda>q. q < n) (zero_inds n t)"
  by (simp add: list_all_iff set_zero_inds)

lemma mcmt_z_single:
  "mcmt_z (int n - 1) =
     (if n < 2 then Inl (mcmt_error n)
      else Inr \<lparr>num_qubits = n, data = [Op (MCZ [0..<n - 1] (n - 1))],
                global_phase_pi = False\<rparr>)"
proof (cases "n < 2")
  case False
  then have "nat (int n - 1) = n - 1" and "n - 1 + 1 = n" by auto
  with False show ?thesis by (simp add: mcmt_z_def)
qed (auto simp: mcmt_z_def mcmt_error_def)

lemma mark_target_ok:
  "2 \<le> n \<Longrightarrow> num_qubits qc = n \<Longrightarrow>
     mark_target n qc t = Inr (qc\<lparr>data := data qc @ target_gates n t\<rparr>)"
  by (simp add: mark_target_def mcmt_z_single append_1q_def qc_compose_def target_gates_def Let_def)

lemma mark_target_few_qubits:
  "n < 2 \<Longrightarrow> num_qubits qc = n \<Longrightarrow> mark_target n qc t = Inl (mcmt_error n)"
  by (simp add: mark_target_def mcmt_z_single append_1q_def)

lemma mark_targets_ok:
  "2 \<le> n \<Longrightarrow> num_qubits qc = n \<Longrightarrow>
     mark_targets n qc ts = Inr (qc\<lparr>data := data qc @ concat (map (target_gates n) ts)\<rparr>)"
  by (induction ts arbitrary: qc) (simp_all add: mark_target_ok)

lemma mark_targets_few_qubits:
  "n < 2 \<Longrightarrow> num_qubits qc = n \<Longrightarrow> ts \<noteq> [] \<Longrightarrow> mark_targets n qc ts = Inl (mcmt_error n)"
  by (cases ts) (simp_all add: mark_target_few_qubits)

lemma grover_oracle_Inr:
  "marked_list m = m0 # ms \<Longrightarrow> 2 \<le> length m0 \<Longrightarrow>
     grover_oracle m = Inr \<lparr>num_qubits = length m0,
                            data = concat (map (target_gates (length m0)) (m0 # ms)),
                            global_phase_pi = False\<rparr>"
  by (simp add: grover_oracle_def mark_targets_ok empty_circuit_def del: mark_targets.simps)

lemma grover_oracle_few_qubits:
  "marked_list m = m0 # ms \<Longrightarrow> length m0 < 2 \<Longrightarrow> grover_oracle m = Inl (mcmt_error (length m0))"
  by (simp add: grover_oracle_def mark_targets_few_qubits empty_circuit_def del: mark_targets.simps)

lemma grover_oracle_InrD:
  assumes "grover_oracle m = Inr qc"
  obtains m0 ms where "marked_list m = m0 # ms" and "2 \<le> length m0"
    and "qc = \<lparr>num_qubits = length m0, data = concat (map (target_gates (length m0)) (marked_list m)),
               global_phase_pi = False\<rparr>"
proof (cases "marked_list m")
  case Nil
  with assms show ?thesis by (simp add: grover_oracle_def)
next
  case (Cons m0 ms)
  with assms grover_oracle_few_qubits [of m m0 ms] have "2 \<le> length m0"
    by (cases "length m0 < 2") auto
  with Cons assms grover_oracle_Inr [of m m0 ms] show ?thesis
    using that by simp
qed

section \<open>Semantics of the oracle\<close>

lemma flip_zero_inds_nth:
  "j < length b \<Longrightarrow> length b = n \<Longrightarrow>
     flip_bits (zero_inds n t) b ! j \<longleftrightarrow> (b ! j \<longleftrightarrow> \<not> py_startswith (rev t) ''0'' j)"
  by (auto simp: nth_flip_bits count_list_distinct set_zero_inds)

text \<open>One iteration flips the phase of the basis states the target matches, and only those.\<close>

lemma exec_target_gates:
  assumes n: "2 \<le> n" and b: "length b = n"
  shows "exec_instrs (target_gates n t) v b = (if target_matches n t b then - v b else v b)"
proof -
  have upt: "[0..<n - 1] @ [n - 1] = [0..<n]"
    using n by (cases n) auto
  have "list_all (\<lambda>c. flip_bits (zero_inds n t) b ! c) [0..<n] = target_matches n t b"
    using b by (simp add: target_matches_def list_all_iff flip_zero_inds_nth)
  then show ?thesis
    unfolding target_gates_def exec_conjugated_mcz upt by simp
qed

text \<open>The whole loop: the phase of \<open>b\<close> flips once per matching target.\<close>

lemma exec_oracle_gates:
  "2 \<le> n \<Longrightarrow> length b = n \<Longrightarrow>
     exec_instrs (concat (map (target_gates n) ts)) v b =
       (if odd (length (filter (\<lambda>t. target_matches n t b) ts)) then - v b else v b)"
  by (induction ts arbitrary: v) (simp_all add: exec_target_gates)

text \<open>A bit-string of the register's width matches exactly its own basis state.\<close>

lemma target_matches_bitstring:
  assumes bs: "is_bitstring t" and lt: "length t = n" and lb: "length b = n"
  shows "target_matches n t b \<longleftrightarrow> label_of_basis b = t"
proof -
  have digit: "rev t ! j = CHR ''0'' \<or> rev t ! j = CHR ''1''" if "j < n" for j
    using bs that lt nth_mem [of j "rev t"] by (auto simp: is_bitstring_def list_all_iff)
  have bit: "basis_of_string t ! j \<longleftrightarrow> \<not> py_startswith (rev t) ''0'' j" if "j < n" for j
    using digit [OF that] that lt by (auto simp: basis_of_string_def)
  have "target_matches n t b \<longleftrightarrow> (\<forall>j < n. b ! j = basis_of_string t ! j)"
    by (auto simp: target_matches_def list_all_iff bit)
  also have "\<dots> \<longleftrightarrow> b = basis_of_string t"
    using lb lt by (simp add: list_eq_iff_nth_eq)
  also have "\<dots> \<longleftrightarrow> label_of_basis b = t"
    using bs label_of_basis_of_string [of t] by auto
  finally show ?thesis .
qed

lemma wf_target_gates:
  "2 \<le> n \<Longrightarrow> i \<in> set (target_gates n t) \<Longrightarrow> wf_instr n i"
  by (auto simp: target_gates_def set_zero_inds list_all_iff)

text \<open>
  The oracle's instructions on distinct bit-strings of the register's width: a phase
  flip on the marked basis states only. The global phase of the circuit is \<open>0\<close>.
\<close>

lemma exec_grover_oracle_marked:
  assumes built: "grover_oracle m = Inr qc"
    and bits: "\<forall>t \<in> set (marked_list m). is_bitstring t \<and> length t = num_qubits qc"
    and dist: "distinct (marked_list m)"
    and b: "length b = num_qubits qc"
  shows "exec_instrs (data qc) v b = (if label_of_basis b \<in> set (marked_list m) then - v b else v b)"
    and "\<not> global_phase_pi qc"
proof -
  obtain m0 ms where "marked_list m = m0 # ms" and n: "2 \<le> length m0"
    and qc: "qc = \<lparr>num_qubits = length m0,
                   data = concat (map (target_gates (length m0)) (marked_list m)),
                   global_phase_pi = False\<rparr>"
    using built by (rule grover_oracle_InrD)
  let ?L = "marked_list m"
  have "exec_instrs (data qc) v b =
        (if odd (length (filter (\<lambda>t. target_matches (length m0) t b) ?L)) then - v b else v b)"
    using n b qc by (simp add: exec_oracle_gates)
  also have "filter (\<lambda>t. target_matches (length m0) t b) ?L = filter (\<lambda>t. t = label_of_basis b) ?L"
    using bits b qc by (intro filter_cong) (auto simp: target_matches_bitstring)
  finally show "exec_instrs (data qc) v b =
                  (if label_of_basis b \<in> set ?L then - v b else v b)"
    using dist by (simp add: length_filter_eq_distinct)
  show "\<not> global_phase_pi qc" using qc by simp
qed

text \<open>The oracle has at least the two qubits \<open>MCMT\<close> needs.\<close>

lemma grover_oracle_width: "grover_oracle mi = Inr orc \<Longrightarrow> 2 \<le> num_qubits orc"
  by (erule grover_oracle_InrD) simp

text \<open>Every gate of a built oracle is well formed.\<close>

lemma wf_grover_oracle: "grover_oracle mi = Inr orc \<Longrightarrow> wf_circuit orc"
  by (erule grover_oracle_InrD) (auto simp: wf_circuit_def wf_target_gates simp del: wf_instr.simps)

text \<open>The builder raises nothing but \<open>IndexError\<close>, \<open>AttributeError\<close> and \<open>CircuitError\<close>.\<close>

lemma grover_oracle_Inl_cases:
  assumes "grover_oracle mi = Inl e" shows "e = IndexError \<or> e = AttributeError \<or> e = CircuitError"
proof (cases "marked_list mi")
  case Nil
  then show ?thesis using assms by (simp add: grover_oracle_def)
next
  case (Cons m0 ms)
  then show ?thesis
    using assms by (cases "length m0 < 2") (auto simp: grover_oracle_few_qubits grover_oracle_Inr mcmt_error_def)
qed

text \<open>On any input the builder accepts: a phase flip where an odd number of targets match.\<close>

lemma run_grover_oracle_parity:
  assumes built: "grover_oracle m = Inr qc" and b: "length b = num_qubits qc"
  shows "run_circuit qc v b =
           (if odd (length (filter (\<lambda>t. target_matches (num_qubits qc) t b) (marked_list m)))
            then - v b else v b)"
proof -
  obtain m0 ms where "marked_list m = m0 # ms" and n: "2 \<le> length m0"
    and qc: "qc = \<lparr>num_qubits = length m0,
                   data = concat (map (target_gates (length m0)) (marked_list m)),
                   global_phase_pi = False\<rparr>"
    using built by (rule grover_oracle_InrD)
  have "run_circuit qc v b = exec_instrs (concat (map (target_gates (length m0)) (marked_list m))) v b"
    using qc by (simp add: run_circuit_no_phase)
  also have "\<dots> = (if odd (length (filter (\<lambda>t. target_matches (length m0) t b) (marked_list m)))
                    then - v b else v b)"
    using n b qc by (intro exec_oracle_gates) simp_all
  finally show ?thesis using qc by simp
qed

section \<open>Properties of the oracle builder\<close>

text \<open>
  C1. On a list of distinct bit-strings of equal length, the circuit \<open>grover_oracle\<close>
  returns negates the amplitude of a basis state exactly when its Qiskit label is one of
  the marked states, and leaves every other amplitude unchanged.
\<close>

theorem grover_oracle_phase_flip:
  assumes built: "grover_oracle m = Inr qc"
    and bits: "\<forall>t \<in> set (marked_list m). is_bitstring t \<and> length t = num_qubits qc"
    and dist: "distinct (marked_list m)"
    and b: "length b = num_qubits qc"
  shows "run_circuit qc v b = (if label_of_basis b \<in> set (marked_list m) then - v b else v b)"
  using exec_grover_oracle_marked [OF assms] by (simp add: run_circuit_no_phase)

theorem grover_oracle_phase_flip_witness:
  "\<exists>qc. grover_oracle (MarkedList [''011'', ''100'']) = Inr qc \<and>
     run_circuit qc (ket [True, True, False]) [True, True, False] = -1 \<and>
     run_circuit qc (ket [False, False, True]) [False, False, True] = -1 \<and>
     run_circuit qc (ket [True, False, False]) [True, False, False] = 1"
proof -
  define qc where "qc = \<lparr>num_qubits = length ''011'',
                         data = concat (map (target_gates (length ''011'')) [''011'', ''100'']),
                         global_phase_pi = False\<rparr>"
  have o: "grover_oracle (MarkedList [''011'', ''100'']) = Inr qc"
    using grover_oracle_Inr [of "MarkedList [''011'', ''100'']" "''011''" "[''100'']"]
    by (simp add: qc_def marked_list_def)
  have h: "\<forall>t \<in> set (marked_list (MarkedList [''011'', ''100''])).
             is_bitstring t \<and> length t = num_qubits qc"
    "distinct (marked_list (MarkedList [''011'', ''100'']))"
    by (simp_all add: marked_list_def is_bitstring_def qc_def)
  have l: "length [True, True, False] = num_qubits qc" "length [False, False, True] = num_qubits qc"
    "length [True, False, False] = num_qubits qc"
    by (simp_all add: qc_def)
  show ?thesis
    using grover_oracle_phase_flip [OF o h l(1)] grover_oracle_phase_flip [OF o h l(2)]
      grover_oracle_phase_flip [OF o h l(3)] o
    by (simp add: ket_def label_of_basis_def char_of_bit_def marked_list_def)
qed

text \<open>
  C11. \<open>grover_oracle\<close> raises exactly three exceptions: \<open>IndexError\<close> at line 52 when
  the list of marked states is empty, \<open>CircuitError\<close> from \<open>MCMT(ZGate(), -1, 1)\<close> at
  line 64 when the first marked state is empty, and \<open>AttributeError\<close> from
  \<open>MCMT(ZGate(), 0, 1)\<close> when it has one character. The X gates of lines 63 and 65
  never raise: every index \<open>zero_inds\<close> returns is in range.
\<close>

theorem grover_oracle_error:
  "grover_oracle m = Inl e \<longleftrightarrow>
     (marked_list m = [] \<and> e = IndexError) \<or>
     (marked_list m \<noteq> [] \<and> hd (marked_list m) = [] \<and> e = CircuitError) \<or>
     (marked_list m \<noteq> [] \<and> length (hd (marked_list m)) = 1 \<and> e = AttributeError)"
proof (cases "marked_list m")
  case Nil
  then show ?thesis by (auto simp: grover_oracle_def)
next
  case (Cons m0 ms)
  consider "length m0 = 0" | "length m0 = 1" | "2 \<le> length m0" by linarith
  then show ?thesis
    by cases (use Cons in \<open>auto simp: grover_oracle_few_qubits grover_oracle_Inr mcmt_error_def\<close>)
qed

theorem grover_oracle_error_witness:
  "grover_oracle (MarkedList []) = Inl IndexError \<and>
   grover_oracle (MarkedStr '''') = Inl CircuitError \<and>
   grover_oracle (MarkedList ['''', ''01'']) = Inl CircuitError \<and>
   grover_oracle (MarkedStr ''1'') = Inl AttributeError \<and>
   grover_oracle (MarkedList [''0'', ''11'']) = Inl AttributeError"
  using grover_oracle_error [of "MarkedList []" IndexError]
    grover_oracle_error [of "MarkedStr ''''" CircuitError]
    grover_oracle_error [of "MarkedList ['''', ''01'']" CircuitError]
    grover_oracle_error [of "MarkedStr ''1''" AttributeError]
    grover_oracle_error [of "MarkedList [''0'', ''11'']" AttributeError]
  by (simp add: marked_list_def)

text \<open>
  C15. On every input \<open>grover_oracle\<close> accepts, whatever the characters and lengths of the
  marked states, its circuit negates the amplitude of a basis state exactly when an odd
  number of the marked states match it (\<open>target_matches\<close>: bit \<open>j\<close> is 0 exactly where
  the reversed state has \<open>'0'\<close> at \<open>j\<close>). A state listed twice is therefore not marked.
\<close>

theorem grover_oracle_parity:
  assumes built: "grover_oracle m = Inr qc" and b: "length b = num_qubits qc"
  shows "run_circuit qc v b =
           (if odd (length (filter (\<lambda>t. target_matches (num_qubits qc) t b) (marked_list m)))
            then - v b else v b)"
  using built b by (rule run_grover_oracle_parity)

theorem grover_oracle_parity_witness:
  "\<exists>qc. grover_oracle (MarkedList [''011'', ''011'']) = Inr qc \<and>
     run_circuit qc (ket [True, True, False]) [True, True, False] = 1"
proof -
  obtain qc where o: "grover_oracle (MarkedList [''011'', ''011'']) = Inr qc" and w: "num_qubits qc = 3"
    using grover_oracle_Inr [of "MarkedList [''011'', ''011'']" "''011''" "[''011'']"]
    by (simp add: marked_list_def)
  have "run_circuit qc (ket [True, True, False]) [True, True, False] =
        (if odd (length (filter (\<lambda>t. target_matches (num_qubits qc) t [True, True, False])
                           (marked_list (MarkedList [''011'', ''011'']))))
         then - ket [True, True, False] [True, True, False] else ket [True, True, False] [True, True, False])"
    using o by (rule grover_oracle_parity) (simp add: w)
  then show ?thesis
    using o by (simp add: ket_def marked_list_def)
qed

text \<open>
  C16. The width is taken from the first marked state only (line 52) and no length is
  checked: \<open>["01", "101"]\<close>, which the spec (section 4.1) rejects with \<open>InvalidInput\<close>, builds a
  two-qubit oracle whose two phase flips fall on the same basis state and cancel, so the
  oracle marks nothing.
\<close>

theorem grover_oracle_unequal_lengths:
  "\<exists>qc. grover_oracle (MarkedList [''01'', ''101'']) = Inr qc \<and> num_qubits qc = 2 \<and>
     map (run_circuit qc v) (basis_states 2) = map v (basis_states 2)"
proof -
  obtain qc where o: "grover_oracle (MarkedList [''01'', ''101'']) = Inr qc" and w: "num_qubits qc = 2"
    using grover_oracle_Inr [of "MarkedList [''01'', ''101'']" "''01''" "[''101'']"]
    by (simp add: marked_list_def)
  have "map (run_circuit qc v) (basis_states 2) = map v (basis_states 2)"
    using run_grover_oracle_parity [OF o] w
    by (intro map_cong) (simp_all add: set_basis_states target_matches_def marked_list_def numeral_2_eq_2)
  with o w show ?thesis by blast
qed

end
