(* ===== verification/Hadamard.thy ===== *)
theory Hadamard
  imports Circuit
begin

text \<open>
  Layers of Hadamard gates, as Qiskit's \<open>qc.h(range(n))\<close> and \<open>GroverOperator\<close> build
  them: a closed form of a layer on any set of distinct qubits (a signed sum over the
  \<open>2\<^sup>k\<close> settings of those qubits), its two uses (the layer on \<open>|0\<dots>0\<rangle>\<close> is the
  uniform vector; the layer read at \<open>|0\<dots>0\<rangle>\<close> is the normalised sum of the input), a
  layer followed by its reverse is the identity, and H-MCX-H on the target is MCZ. The
  semantics reads a vector only at basis states of one length, and is linear; both facts
  are proved here and used by the Grover operator.
\<close>

section \<open>Vectors agreeing on one register width; linearity\<close>

lemma apply_gate_len_cong:
  "(\<And>x. length x = length y \<Longrightarrow> v x = w x) \<Longrightarrow> apply_gate g v y = apply_gate g w y"
  by (cases g) simp_all

lemma exec_len_cong_aux:
  "(\<forall>x. length x = n \<longrightarrow> v x = w x) \<longrightarrow>
     (\<forall>x. length x = n \<longrightarrow> exec_instr i v x = exec_instr i w x)"
  "(\<forall>x. length x = n \<longrightarrow> v x = w x) \<longrightarrow>
     (\<forall>x. length x = n \<longrightarrow> exec_instrs is v x = exec_instrs is w x)"
proof (induction i v and "is" v arbitrary: w and w rule: exec_instr_exec_instrs.induct)
  case (1 g v)
  show ?case by (auto intro!: apply_gate_len_cong)
next
  case (2 body neg v)
  then show ?case by (auto simp: Let_def)
next
  case (6 i "is" v)
  show ?case
  proof (intro impI allI)
    fix x :: basis
    assume vw: "\<forall>x. length x = n \<longrightarrow> v x = w x" and x: "length x = n"
    have "\<forall>x. length x = n \<longrightarrow> exec_instr i v x = exec_instr i w x"
      using "6.IH"(1) vw by blast
    then have "\<forall>x. length x = n \<longrightarrow> exec_instrs is (exec_instr i v) x = exec_instrs is (exec_instr i w) x"
      using "6.IH"(2) by blast
    with x show "exec_instrs (i # is) v x = exec_instrs (i # is) w x" by simp
  qed
qed simp_all

lemma exec_len_cong:
  "(\<And>x. length x = length y \<Longrightarrow> v x = w x) \<Longrightarrow> exec_instrs is v y = exec_instrs is w y"
  using exec_len_cong_aux(2) [of "length y" v w "is"] by blast

lemma apply_gate_linear:
  "apply_gate g (\<lambda>x. a * v x + c * w x) = (\<lambda>x. a * apply_gate g v x + c * apply_gate g w x)"
  by (cases g) (auto simp: fun_eq_iff algebra_simps add_divide_distrib)

lemma exec_linear:
  "exec_instr i (\<lambda>x. a * v x + c * w x) = (\<lambda>x. a * exec_instr i v x + c * exec_instr i w x)"
  "exec_instrs is (\<lambda>x. a * v x + c * w x) = (\<lambda>x. a * exec_instrs is v x + c * exec_instrs is w x)"
proof (induction i v and "is" v arbitrary: w and w rule: exec_instr_exec_instrs.induct)
  case (2 body neg v)
  then show ?case by (simp add: Let_def fun_eq_iff algebra_simps)
qed (simp_all add: apply_gate_linear)

section \<open>Closed form of a Hadamard layer\<close>

text \<open>Setting the bits \<open>qs\<close> of \<open>b\<close> to the values \<open>c\<close>, and the sign \<open>(-1)\<^sup>b\<^sup>\<cdot>\<^sup>c\<close>.\<close>

definition set_bits :: "nat list \<Rightarrow> bool list \<Rightarrow> basis \<Rightarrow> basis" where
  "set_bits qs c b = foldr (\<lambda>(i, x) y. y[i := x]) (zip qs c) b"

definition hsign :: "nat list \<Rightarrow> bool list \<Rightarrow> basis \<Rightarrow> real" where
  "hsign qs c b = (-1) ^ length (filter (\<lambda>(i, x). b ! i \<and> x) (zip qs c))"

lemma set_bits_Nil [simp]: "set_bits [] c b = b"
  and set_bits_Cons [simp]: "set_bits (q # qs) (x # c) b = (set_bits qs c b)[q := x]"
  by (simp_all add: set_bits_def)

lemma hsign_Nil [simp]: "hsign [] c b = 1"
  and hsign_Cons [simp]:
    "hsign (q # qs) (x # c) b = (if b ! q \<and> x then -1 else 1) * hsign qs c b"
  by (simp_all add: hsign_def)

lemma set_bits_no_values [simp]: "set_bits qs [] b = b"
  by (simp add: set_bits_def)

lemma length_set_bits [simp]: "length (set_bits qs c b) = length b"
proof (induction qs arbitrary: c)
  case (Cons q qs)
  then show ?case by (cases c) simp_all
qed simp

lemma set_bits_other:
  "q \<notin> set qs \<Longrightarrow> set_bits qs c b ! q = b ! q"
proof (induction qs arbitrary: c)
  case (Cons p qs)
  then show ?case by (cases c) (simp_all add: nth_list_update_neq)
qed simp

lemma nth_set_bits:
  "distinct qs \<Longrightarrow> length c = length qs \<Longrightarrow> j < length qs \<Longrightarrow> qs ! j < length b \<Longrightarrow>
     set_bits qs c b ! (qs ! j) = c ! j"
proof (induction qs arbitrary: c j)
  case (Cons q qs)
  then obtain x c' where c: "c = x # c'" by (cases c) auto
  show ?case
  proof (cases j)
    case 0
    with Cons.prems c show ?thesis by simp
  next
    case (Suc j')
    with Cons.prems have "qs ! j' \<noteq> q" by (auto simp: nth_mem)
    with Cons.prems Cons.IH [of c' j'] c Suc show ?thesis by simp
  qed
qed simp

text \<open>
  A Hadamard layer on distinct qubits \<open>qs\<close>: the entry at \<open>b\<close> is the sum over all
  settings \<open>c\<close> of those qubits of \<open>(-1)\<^sup>b\<^sup>\<cdot>\<^sup>c\<close> times the entry at \<open>b\<close> with the
  qubits set to \<open>c\<close>, divided by \<open>\<surd>2\<close> per qubit.
\<close>

lemma exec_h_layer:
  assumes "distinct qs" and "\<forall>q \<in> set qs. q < length b"
  shows "exec_instrs (map (Op \<circ> H) qs) v b =
           (\<Sum>c | length c = length qs. hsign qs c b * v (set_bits qs c b)) / sqrt 2 ^ length qs"
  using assms
proof (induction qs arbitrary: v)
  case Nil
  then show ?case by (simp add: sum_basis_0)
next
  case (Cons q qs)
  let ?k = "length qs"
  have q: "q \<notin> set qs" "q < length b" and qs: "distinct qs" "\<forall>p \<in> set qs. p < length b"
    using Cons.prems by auto
  have step: "hsign qs c b * apply_gate (H q) v (set_bits qs c b) / sqrt 2 ^ ?k =
      (hsign (q # qs) (False # c) b * v (set_bits (q # qs) (False # c) b) +
       hsign (q # qs) (True # c) b * v (set_bits (q # qs) (True # c) b)) / sqrt 2 ^ Suc ?k" for c
    using q by (simp add: set_bits_other field_simps)
  have "exec_instrs (map (Op \<circ> H) (q # qs)) v b =
        exec_instrs (map (Op \<circ> H) qs) (apply_gate (H q) v) b"
    by simp
  also have "\<dots> = (\<Sum>c | length c = ?k. hsign qs c b * apply_gate (H q) v (set_bits qs c b)) /
                   sqrt 2 ^ ?k"
    using Cons.IH qs by blast
  also have "\<dots> = (\<Sum>c | length c = ?k. hsign qs c b * apply_gate (H q) v (set_bits qs c b) /
                   sqrt 2 ^ ?k)"
    by (simp add: sum_divide_distrib)
  also have "\<dots> = (\<Sum>c | length c = ?k.
                     (hsign (q # qs) (False # c) b * v (set_bits (q # qs) (False # c) b) +
                      hsign (q # qs) (True # c) b * v (set_bits (q # qs) (True # c) b)) /
                     sqrt 2 ^ Suc ?k)"
    by (simp only: step)
  also have "\<dots> = (\<Sum>c | length c = Suc ?k. hsign (q # qs) c b * v (set_bits (q # qs) c b)) /
                   sqrt 2 ^ Suc ?k"
    by (simp only: sum_basis_Suc sum_divide_distrib)
  finally show ?case by (simp only: length_Cons)
qed

section \<open>Layers on all qubits\<close>

text \<open>\<open>qs\<close> lists each qubit of an \<open>n\<close>-qubit register once, in some order.\<close>

definition covers :: "nat list \<Rightarrow> nat \<Rightarrow> bool" where
  "covers qs n \<longleftrightarrow> distinct qs \<and> set qs = {0..<n}"

lemma covers_upt [simp]: "covers [0..<n] n"
  and covers_rev_upt [simp]: "covers (rev [0..<n]) n"
  by (simp_all add: covers_def)

lemma covers_length: "covers qs n \<Longrightarrow> length qs = n"
  by (metis covers_def atLeastLessThan_upt distinct_card distinct_upt length_upt card_set minus_nat.diff_0)

lemma covers_nth_less: "covers qs n \<Longrightarrow> j < n \<Longrightarrow> qs ! j < n"
  using covers_length [of qs n] nth_mem [of j qs] by (auto simp: covers_def)

lemma covers_nth_set_bits:
  "covers qs n \<Longrightarrow> length c = n \<Longrightarrow> length b = n \<Longrightarrow> j < n \<Longrightarrow>
     set_bits qs c b ! (qs ! j) = c ! j"
  using covers_length [of qs n] covers_nth_less [of qs n j] nth_set_bits [of qs c j b]
  by (simp add: covers_def)

lemma covers_set_bits_eq:
  assumes cov: "covers qs n" and c: "length c = n" and b: "length b = n"
  shows "set_bits qs c b = y \<longleftrightarrow> length y = n \<and> (\<forall>j < n. y ! (qs ! j) = c ! j)"
proof -
  have len: "length qs = n" using cov by (rule covers_length)
  have dq: "distinct qs" and sq: "set qs = {0..<n}" using cov by (auto simp: covers_def)
  have lt: "qs ! j < n" if "j < n" for j using sq len that nth_mem [of j qs] by auto
  have onto: "\<exists>j < n. qs ! j = i" if "i < n" for i
    using sq len that by (metis atLeastLessThan_iff in_set_conv_nth zero_le)
  show ?thesis
  proof
    assume "set_bits qs c b = y"
    then show "length y = n \<and> (\<forall>j < n. y ! (qs ! j) = c ! j)"
      using dq len c b lt nth_set_bits by auto
  next
    assume y: "length y = n \<and> (\<forall>j < n. y ! (qs ! j) = c ! j)"
    show "set_bits qs c b = y"
    proof (rule nth_equalityI)
      show "length (set_bits qs c b) = length y" using y b by simp
      fix i assume "i < length (set_bits qs c b)"
      then obtain j where "j < n" and "qs ! j = i" using onto b by auto
      then show "set_bits qs c b ! i = y ! i"
        using y dq len c b lt nth_set_bits by auto
    qed
  qed
qed

lemma hsign_zeros: "hsign qs (replicate k False) b = 1"
proof -
  have "filter (\<lambda>(i, x). b ! i \<and> x) (zip qs (replicate k False)) = []"
    by (auto simp: filter_empty_conv dest: set_zip_rightD)
  then show ?thesis by (simp add: hsign_def)
qed

lemma hsign_at_zeros: "\<forall>q \<in> set qs. q < n \<Longrightarrow> hsign qs c (replicate n False) = 1"
proof -
  assume "\<forall>q \<in> set qs. q < n"
  then have "filter (\<lambda>(i, x). replicate n False ! i \<and> x) (zip qs c) = []"
    by (auto simp: filter_empty_conv dest: set_zip_leftD)
  then show ?thesis by (simp add: hsign_def)
qed

text \<open>A full layer maps \<open>|0\<dots>0\<rangle>\<close> to the uniform vector.\<close>

lemma h_layer_ket_zeros:
  assumes cov: "covers qs n" and b: "length b = n"
  shows "exec_instrs (map (Op \<circ> H) qs) (ket (replicate n False)) b = 1 / sqrt 2 ^ n"
proof -
  have len: "length qs = n" using cov by (rule covers_length)
  have lt: "\<forall>q \<in> set qs. q < length b" using cov b by (simp add: covers_def)
  have zero: "set_bits qs c b = replicate n False \<longleftrightarrow> c = replicate n False" if "length c = n" for c
    using covers_set_bits_eq [OF cov that b, of "replicate n False"] covers_nth_less [OF cov] that
    by (auto simp: list_eq_iff_nth_eq)
  have "(\<Sum>c | length c = n. hsign qs c b * ket (replicate n False) (set_bits qs c b)) =
        (\<Sum>c | length c = n. if c = replicate n False then hsign qs c b else 0)"
    by (rule sum.cong) (auto simp: ket_def zero)
  also have "\<dots> = 1"
    by (simp add: sum.delta hsign_zeros)
  finally show ?thesis
    using exec_h_layer [of qs b] cov lt len by (simp add: covers_def)
qed

text \<open>A full layer read at \<open>|0\<dots>0\<rangle>\<close> gives the sum of the input, normalised.\<close>

lemma h_layer_at_zeros:
  assumes cov: "covers qs n"
  shows "exec_instrs (map (Op \<circ> H) qs) v (replicate n False) = amp_sum n v / sqrt 2 ^ n"
proof -
  let ?z = "replicate n False"
  have len: "length qs = n" using cov by (rule covers_length)
  have lt: "\<forall>q \<in> set qs. q < n" using cov by (simp add: covers_def)
  have bij: "bij_betw (\<lambda>c. set_bits qs c ?z) {c. length c = n} {b. length b = n}"
  proof (rule bij_betw_imageI)
    show "inj_on (\<lambda>c. set_bits qs c ?z) {c. length c = n}"
    proof (rule inj_onI)
      fix x y :: basis
      assume x: "x \<in> {c. length c = n}" and y: "y \<in> {c. length c = n}"
        and eq: "set_bits qs x ?z = set_bits qs y ?z"
      have "x ! j = y ! j" if "j < n" for j
        using covers_nth_set_bits [OF cov _ _ that, of x ?z] covers_nth_set_bits [OF cov _ _ that, of y ?z]
          eq x y by simp
      then show "x = y" using x y by (simp add: list_eq_iff_nth_eq)
    qed
    show "(\<lambda>c. set_bits qs c ?z) ` {c. length c = n} = {b. length b = n}"
    proof
      show "(\<lambda>c. set_bits qs c ?z) ` {c. length c = n} \<subseteq> {b. length b = n}" by auto
      show "{b. length b = n} \<subseteq> (\<lambda>c. set_bits qs c ?z) ` {c. length c = n}"
      proof
        fix b :: basis assume "b \<in> {b. length b = n}"
        then have "set_bits qs (map ((!) b) qs) ?z = b"
          using len by (simp add: covers_set_bits_eq [OF cov])
        then show "b \<in> (\<lambda>c. set_bits qs c ?z) ` {c. length c = n}"
          using len by (metis (mono_tags, lifting) image_eqI length_map mem_Collect_eq)
      qed
    qed
  qed
  have "(\<Sum>c | length c = n. hsign qs c ?z * v (set_bits qs c ?z)) =
        (\<Sum>c | length c = n. v (set_bits qs c ?z))"
    using lt by (simp add: hsign_at_zeros)
  also have "\<dots> = amp_sum n v"
    using sum.reindex_bij_betw [OF bij, of v] by (simp add: amp_sum_eq)
  finally show ?thesis
    using exec_h_layer [of qs ?z v] cov lt len by (simp add: covers_def)
qed

section \<open>Cancellation and conjugation\<close>

lemma sqrt2_sq [simp]: "sqrt 2 * sqrt (2::real) = 2"
  by simp

lemma h_h:
  assumes "q < length x"
  shows "apply_gate (H q) (apply_gate (H q) v) x = v x"
proof (cases "x ! q")
  case True
  then have "x[q := True] = x" by (metis list_update_id)
  with assms True show ?thesis by (simp add: field_simps)
next
  case False
  then have "x[q := False] = x" by (metis list_update_id)
  with assms False show ?thesis by (simp add: field_simps)
qed

text \<open>A layer followed by the same layer in reverse order is the identity.\<close>

lemma h_layer_rev_cancel:
  "\<forall>q \<in> set qs. q < length b \<Longrightarrow>
     exec_instrs (map (Op \<circ> H) (rev qs) @ map (Op \<circ> H) qs) v b = v b"
proof (induction qs arbitrary: v b)
  case (Cons q qs)
  let ?w = "exec_instrs (map (Op \<circ> H) (rev qs)) v"
  have "exec_instrs (map (Op \<circ> H) (rev (q # qs)) @ map (Op \<circ> H) (q # qs)) v b =
        exec_instrs (map (Op \<circ> H) qs) (apply_gate (H q) (apply_gate (H q) ?w)) b"
    by simp
  also have "\<dots> = exec_instrs (map (Op \<circ> H) qs) ?w b"
  proof (rule exec_len_cong)
    fix x :: basis
    assume "length x = length b"
    with Cons.prems show "apply_gate (H q) (apply_gate (H q) ?w) x = ?w x"
      by (intro h_h) simp
  qed
  also have "\<dots> = v b"
  proof -
    have "exec_instrs (map (Op \<circ> H) (rev qs) @ map (Op \<circ> H) qs) v b = v b"
      by (rule Cons.IH) (use Cons.prems in simp)
    then show ?thesis by (simp only: exec_instrs_append)
  qed
  finally show ?case .
qed simp

text \<open>H on the target around a multi-controlled X is a multi-controlled Z.\<close>

lemma h_mcx_h:
  assumes t: "t \<notin> set cs" "t < length y"
  shows "exec_instrs [Op (H t), Op (MCX cs t), Op (H t)] w y = apply_gate (MCZ cs t) w y"
proof -
  have ctl: "list_all (\<lambda>c. y[t := x] ! c) cs = list_all (\<lambda>c. y ! c) cs" for x
    using t(1) by (induction cs) auto
  have fl: "flip_bit t (y[t := x]) = y[t := \<not> x]" for x
    using t(2) by (simp add: flip_bit_def)
  show ?thesis
  proof (cases "list_all (\<lambda>c. y ! c) cs")
    case False
    then show ?thesis using t h_h [of t y w] by (simp add: ctl)
  next
    case True
    show ?thesis
    proof (cases "y ! t")
      case yt: True
      then have "y[t := True] = y" by (metis list_update_id)
      with True yt t show ?thesis by (simp add: ctl fl field_simps)
    next
      case yt: False
      then have "y[t := False] = y" by (metis list_update_id)
      with True yt t show ?thesis by (simp add: ctl fl field_simps)
    qed
  qed
qed

end
