(* ===== verification/Grover_Operator.thy ===== *)
theory Grover_Operator
  imports Hadamard Oracle
begin

text \<open>
  Qiskit's \<open>GroverOperator(oracle)\<close> as \<open>src/main_2.py\<close> line 74 calls it: the
  oracle's instructions, the inverse of the state preparation (a Hadamard layer, inverted,
  so in reverse order), the zero reflection (X on every qubit, a multi-controlled Z made
  of H-MCX-H on the last qubit, or a plain Z for one qubit, X again), the state
  preparation, and a global phase \<open>\<pi>\<close> that Qiskit sets (overwriting the oracle's).
  The abstract operation of the spec (section 4.2) is \<open>diffusion\<close>: inversion about the
  mean. The main lemma shows the gate-level operator is the oracle followed by that
  inversion, on every register of at least one qubit; C2 states it for the oracles
  \<open>grover_oracle\<close> builds.
\<close>

section \<open>Definitions\<close>

definition zero_reflection :: "nat \<Rightarrow> instr list" where
  "zero_reflection n =
     map (Op \<circ> X) [0..<n] @
     (if n = 1 then [Op (Z 0)]
      else [Op (H (n - 1)), Op (MCX [0..<n - 1] (n - 1)), Op (H (n - 1))]) @
     map (Op \<circ> X) [0..<n]"

definition grover_operator :: "qcircuit \<Rightarrow> qcircuit" where
  "grover_operator oracle =
     (let n = num_qubits oracle
      in \<lparr>num_qubits = n,
          data = data oracle @ map (Op \<circ> H) (rev [0..<n]) @ zero_reflection n @
                 map (Op \<circ> H) [0..<n],
          global_phase_pi = True\<rparr>)"

text \<open>Inversion about the mean of the \<open>2\<^sup>n\<close> amplitudes.\<close>

definition diffusion :: "nat \<Rightarrow> amps \<Rightarrow> amps" where
  "diffusion n u = (\<lambda>b. 2 * amp_sum n u / 2 ^ n - u b)"

section \<open>The zero reflection\<close>

lemma flip_all_nth:
  "length y = n \<Longrightarrow> c < n \<Longrightarrow> flip_bits [0..<n] y ! c = (\<not> y ! c)"
  by (simp add: nth_flip_bits count_list_distinct)

lemma all_flipped_iff_zeros:
  assumes "length y = n" and "1 \<le> n"
  shows "list_all (\<lambda>c. flip_bits [0..<n] y ! c) ([0..<n - 1] @ [n - 1]) \<longleftrightarrow>
         y = replicate n False"
proof -
  have "[0..<n - 1] @ [n - 1] = [0..<n]" using assms(2) by (cases n) auto
  then have "list_all (\<lambda>c. flip_bits [0..<n] y ! c) ([0..<n - 1] @ [n - 1]) \<longleftrightarrow>
             (\<forall>c < n. \<not> y ! c)"
    using assms(1) by (auto simp: list_all_iff flip_all_nth)
  also have "\<dots> \<longleftrightarrow> y = replicate n False"
    using assms(1) by (simp add: list_eq_iff_nth_eq)
  finally show ?thesis .
qed

text \<open>The zero reflection negates the amplitude of \<open>|0\<dots>0\<rangle>\<close> and nothing else.\<close>

lemma exec_zero_reflection:
  assumes y: "length y = n" and n: "1 \<le> n"
  shows "exec_instrs (zero_reflection n) w y = (if y = replicate n False then - w y else w y)"
proof (cases "n = 1")
  case True
  then obtain x where "y = [x]" using y by (cases y) auto
  with True show ?thesis by (simp add: zero_reflection_def flip_bit_def)
next
  case False
  let ?F = "flip_bits [0..<n]"
  let ?mid = "[Op (H (n - 1)), Op (MCX [0..<n - 1] (n - 1)), Op (H (n - 1))]"
  have ly: "length (?F y) = n" using y by simp
  have "exec_instrs (zero_reflection n) w y =
        exec_instrs ?mid (\<lambda>b. w (?F b)) (?F y)"
    using False by (simp add: zero_reflection_def exec_x_layer)
  also have "\<dots> = apply_gate (MCZ [0..<n - 1] (n - 1)) (\<lambda>b. w (?F b)) (?F y)"
    using n ly by (intro h_mcx_h) auto
  also have "\<dots> = (if y = replicate n False then - w y else w y)"
    using all_flipped_iff_zeros [OF y n] by simp
  finally show ?thesis .
qed

section \<open>The operator is the oracle followed by inversion about the mean\<close>

lemma sqrt2_pow_sq: "sqrt 2 ^ n * sqrt 2 ^ n = (2::real) ^ n"
  by (simp add: power_mult_distrib [symmetric])

lemma exec_grover_body:
  assumes b: "length b = n" and n: "1 \<le> n"
  shows "exec_instrs (map (Op \<circ> H) (rev [0..<n]) @ zero_reflection n @ map (Op \<circ> H) [0..<n]) u b =
         u b - 2 * amp_sum n u / 2 ^ n"
proof -
  let ?z = "replicate n False"
  let ?W' = "exec_instrs (map (Op \<circ> H) (rev [0..<n])) u"
  let ?s = "?W' ?z"
  have refl: "exec_instrs (zero_reflection n) ?W' x = 1 * ?W' x + (- 2 * ?s) * ket ?z x"
    if "length x = n" for x
    using exec_zero_reflection [OF that n, of ?W'] by (simp add: ket_def)
  have "exec_instrs (map (Op \<circ> H) (rev [0..<n]) @ zero_reflection n @ map (Op \<circ> H) [0..<n]) u b =
        exec_instrs (map (Op \<circ> H) [0..<n]) (exec_instrs (zero_reflection n) ?W') b"
    by simp
  also have "\<dots> = exec_instrs (map (Op \<circ> H) [0..<n]) (\<lambda>x. 1 * ?W' x + (- 2 * ?s) * ket ?z x) b"
    using b by (intro exec_len_cong) (simp add: refl)
  also have "\<dots> = exec_instrs (map (Op \<circ> H) [0..<n]) ?W' b +
                  (- 2 * ?s) * exec_instrs (map (Op \<circ> H) [0..<n]) (ket ?z) b"
    by (simp only: exec_linear)
  also have "exec_instrs (map (Op \<circ> H) [0..<n]) ?W' b = u b"
    using h_layer_rev_cancel [of "[0..<n]" b u] b by simp
  also have "exec_instrs (map (Op \<circ> H) [0..<n]) (ket ?z) b = 1 / sqrt 2 ^ n"
    using b by (intro h_layer_ket_zeros) simp_all
  also have "?s = amp_sum n u / sqrt 2 ^ n"
    by (intro h_layer_at_zeros) simp
  finally show ?thesis
    by (simp add: sqrt2_pow_sq comp_def)
qed

text \<open>The operator as a whole, as the amplification rounds use it.\<close>

lemma grover_operator_body_diffusion:
  assumes n: "1 \<le> num_qubits oracle" and b: "length b = num_qubits oracle"
  shows "run_circuit (grover_operator oracle) v b =
           2 * amp_sum (num_qubits oracle) (exec_instrs (data oracle) v) / 2 ^ num_qubits oracle -
           exec_instrs (data oracle) v b"
  using exec_grover_body [OF b n, of "exec_instrs (data oracle) v"]
  by (simp add: grover_operator_def run_circuit_def Let_def)

text \<open>The operator of a well-formed oracle is well formed.\<close>

lemma wf_zero_reflection: "1 \<le> n \<Longrightarrow> i \<in> set (zero_reflection n) \<Longrightarrow> wf_instr n i"
  by (auto simp: zero_reflection_def list_all_iff split: if_splits)

lemma wf_grover_operator:
  "wf_circuit orc \<Longrightarrow> 1 \<le> num_qubits orc \<Longrightarrow> wf_circuit (grover_operator orc)"
  by (auto simp: wf_circuit_def grover_operator_def Let_def wf_zero_reflection)

section \<open>Property\<close>

text \<open>
  C2. For every oracle circuit \<open>grover_oracle\<close> builds (line 71), the Grover operator of
  line 74 maps an amplitude vector to the oracle's image of it, inverted about its mean:
  the gate-level circuit implements the amplification round of the spec (section 4.2).
\<close>

theorem grover_operator_diffusion:
  assumes built: "grover_oracle m = Inr orc" and b: "length b = num_qubits orc"
  shows "run_circuit (grover_operator orc) v b =
           diffusion (num_qubits orc) (exec_instrs (data orc) v) b"
proof -
  have "1 \<le> num_qubits orc" using grover_oracle_width [OF built] by simp
  then show ?thesis
    using grover_operator_body_diffusion [OF _ b, of v] by (simp add: diffusion_def)
qed

theorem grover_operator_diffusion_witness:
  "\<exists>orc. grover_oracle (MarkedList [''011'', ''100'']) = Inr orc \<and>
     run_circuit (grover_operator orc) (ket [False, False, False]) [True, False, False] =
       diffusion 3 (exec_instrs (data orc) (ket [False, False, False])) [True, False, False]"
proof -
  obtain orc where built: "grover_oracle (MarkedList [''011'', ''100'']) = Inr orc"
    and w: "num_qubits orc = 3"
    using grover_oracle_Inr [of "MarkedList [''011'', ''100'']" "''011''" "[''100'']"]
    by (simp add: marked_list_def)
  have "run_circuit (grover_operator orc) (ket [False, False, False]) [True, False, False] =
        diffusion (num_qubits orc) (exec_instrs (data orc) (ket [False, False, False])) [True, False, False]"
    using built by (rule grover_operator_diffusion) (simp add: w)
  with built w show ?thesis by auto
qed

end
