(* ===== verification/Iterations.thy ===== *)
theory Iterations
  imports Prelude
begin

text \<open>
  The iteration count of \<open>src/main_2.py\<close>, lines 77--79:
  \<open>math.floor(math.pi / 4 * math.sqrt(2**n / len(marked_states)))\<close>. The true division of
  two Python ints raises \<open>ZeroDivisionError\<close> when \<open>m = 0\<close> and \<open>OverflowError\<close> when its
  correctly rounded quotient is not a finite float, i.e. when \<open>2\<^sup>n/m\<close> is at least the
  midpoint \<open>2\<^sup>1\<^sup>0\<^sup>2\<^sup>4 - 2\<^sup>9\<^sup>7\<^sup>0\<close> between the largest float and \<open>2\<^sup>1\<^sup>0\<^sup>2\<^sup>4\<close>
  (\<open>py_div_overflows\<close>; for \<open>m = 1\<close> that is \<open>n \<ge> 1024\<close>). The rest of the computation
  cannot raise. Its value is taken over the reals: the rounding of the quotient, of
  \<open>sqrt\<close> and of the product to 53-bit floats is not modelled, so the count is the exact
  floor, which the float result equals while the argument of the floor is far from an
  integer relative to \<open>2\<^sup>-\<^sup>5\<^sup>3\<close> (in particular not once it exceeds \<open>2\<^sup>5\<^sup>3\<close>, from
  about \<open>n = 106\<close> on). The lemmas bound the result by integers:
  \<open>k\<^sup>2 m < 2\<^sup>n < 4 m (k + 1)\<^sup>2\<close>.
\<close>

definition py_div_overflows :: "nat \<Rightarrow> nat \<Rightarrow> bool" where
  "py_div_overflows a b \<longleftrightarrow> 2 ^ 1024 - 2 ^ 970 \<le> real a / real b"

definition optimal_num_iterations :: "nat \<Rightarrow> nat \<Rightarrow> py_error + int" where
  "optimal_num_iterations n m =
     (if m = 0 then Inl ZeroDivisionError
      else if py_div_overflows (2 ^ n) m then Inl OverflowError
      else Inr \<lfloor>pi / 4 * sqrt (2 ^ n / real m)\<rfloor>)"

text \<open>Below \<open>2\<^sup>1\<^sup>0\<^sup>2\<^sup>4\<close> the quotient of line 78 never overflows.\<close>

lemma no_overflow_small:
  assumes "m \<noteq> 0" and "n < 1024"
  shows "\<not> py_div_overflows (2 ^ n) m"
proof -
  have "real (2 ^ n) / real m \<le> 2 ^ n" using assms(1) by (simp add: divide_le_eq)
  also have "(2::real) ^ n \<le> 2 ^ 1023" using assms(2) by (intro power_increasing) simp_all
  also have "(2::real) ^ 1023 < 2 ^ 1024 - 2 ^ 970" by simp
  finally show ?thesis by (simp add: py_div_overflows_def)
qed

section \<open>Bounds\<close>

lemma pi_sq_bounds: "4 \<le> pi\<^sup>2" "pi\<^sup>2 < 16"
proof -
  have "(2::real)\<^sup>2 \<le> pi\<^sup>2" using pi_ge_two by (rule power_mono) simp
  then show "4 \<le> pi\<^sup>2" by simp
  have "pi\<^sup>2 < (4::real)\<^sup>2" using pi_less_4 by (rule power_strict_mono) simp_all
  then show "pi\<^sup>2 < 16" by simp
qed

text \<open>The real argument of the floor, squared, against the ratio \<open>r = 2\<^sup>n / m\<close>.\<close>

lemma iteration_arg_sq:
  assumes "0 \<le> r"
  shows "(pi / 4 * sqrt r)\<^sup>2 = pi\<^sup>2 / 16 * r"
  using assms by (simp add: power_mult_distrib power_divide)

lemma floor_iteration_bounds:
  assumes r: "0 < r" and k: "k = \<lfloor>pi / 4 * sqrt r\<rfloor>"
  shows "0 \<le> k" and "real_of_int k ^ 2 < r" and "r < 4 * (real_of_int k + 1) ^ 2"
proof -
  let ?x = "pi / 4 * sqrt r"
  have x0: "0 \<le> ?x" using r by simp
  have lo: "real_of_int k \<le> ?x" and hi: "?x < real_of_int k + 1"
    using k by linarith+
  show k0: "0 \<le> k" using k x0 by simp
  have "real_of_int k ^ 2 \<le> ?x ^ 2"
    using lo k0 by (intro power_mono) simp_all
  also have "?x ^ 2 = pi\<^sup>2 / 16 * r"
    by (rule iteration_arg_sq) (use r in simp)
  also have "\<dots> < r"
    using r pi_sq_bounds(2) by simp
  finally show "real_of_int k ^ 2 < r" .
  have "r \<le> 4 * (pi\<^sup>2 / 16 * r)"
    using r pi_sq_bounds(1) by simp
  also have "pi\<^sup>2 / 16 * r = ?x ^ 2"
    by (rule iteration_arg_sq [symmetric]) (use r in simp)
  also have "?x ^ 2 < (real_of_int k + 1) ^ 2"
    using hi x0 by (intro power_strict_mono) simp_all
  finally show "r < 4 * (real_of_int k + 1) ^ 2" by simp
qed

text \<open>The same bounds on integers, for the value the definition computes.\<close>

lemma iterations_int_bounds:
  assumes m: "m \<noteq> 0" and k: "k = \<lfloor>pi / 4 * sqrt (2 ^ n / real m)\<rfloor>"
  shows "0 \<le> k \<and> k ^ 2 * int m < 2 ^ n \<and> 2 ^ n < 4 * int m * (k + 1) ^ 2"
proof -
  define r where "r = 2 ^ n / real m"
  have r: "0 < r" using m by (simp add: r_def)
  have m': "0 < real m" using m by simp
  note b = floor_iteration_bounds [OF r k [folded r_def]]
  have "real_of_int (k ^ 2 * int m) < real_of_int (2 ^ n)"
    using b(2) m' by (simp add: r_def pos_less_divide_eq)
  moreover have "real_of_int (2 ^ n) < real_of_int (4 * int m * (k + 1) ^ 2)"
    using b(3) m' by (simp add: r_def pos_divide_less_eq mult.commute mult.left_commute)
  ultimately show ?thesis
    using b(1) by (simp only: of_int_less_iff)
qed

section \<open>Properties\<close>

text \<open>
  C12. For a positive number of marked states \<open>m\<close> and a quotient \<open>2\<^sup>n/m\<close> inside the
  float range, the count is computed (no exception) and is a non-negative integer \<open>k\<close>
  with \<open>k\<^sup>2 m < 2\<^sup>n < 4 m (k + 1)\<^sup>2\<close>: it is below \<open>\<surd>(2\<^sup>n/m)\<close> and above
  \<open>\<surd>(2\<^sup>n/m)/2 - 1\<close>.
\<close>

theorem optimal_num_iterations_bounds:
  "m \<noteq> 0 \<Longrightarrow> \<not> py_div_overflows (2 ^ n) m \<Longrightarrow>
     \<exists>k. optimal_num_iterations n m = Inr k \<and> 0 \<le> k \<and>
         k ^ 2 * int m < 2 ^ n \<and> 2 ^ n < 4 * int m * (k + 1) ^ 2"
  using iterations_int_bounds by (simp add: optimal_num_iterations_def)

text \<open>At \<open>n = 4\<close> with one marked state the bounds leave \<open>k \<in> {2, 3}\<close>.\<close>

theorem optimal_num_iterations_bounds_witness:
  "\<exists>k. optimal_num_iterations 4 1 = Inr k \<and> 2 \<le> k \<and> k \<le> 3"
proof -
  obtain k where e: "optimal_num_iterations 4 1 = Inr k" and k0: "0 \<le> k"
    and lo: "k ^ 2 * int 1 < 2 ^ 4" and hi: "2 ^ 4 < 4 * int 1 * (k + 1) ^ 2"
    using optimal_num_iterations_bounds [of 1 4] no_overflow_small [of 1 4] by auto
  have "k \<le> 3"
  proof (rule ccontr)
    assume "\<not> k \<le> 3"
    then have "4 * 4 \<le> k * k" by (intro mult_mono) simp_all
    with lo show False by (simp add: power2_eq_square)
  qed
  moreover have "2 \<le> k"
  proof (rule ccontr)
    assume "\<not> 2 \<le> k"
    then have "(k + 1) * (k + 1) \<le> 2 * 2" using k0 by (intro mult_mono) simp_all
    with hi show False by (simp add: power2_eq_square)
  qed
  ultimately show ?thesis using e by blast
qed

text \<open>The script's own input: three qubits, two marked states, one round.\<close>

lemma script_iterations: "optimal_num_iterations 3 2 = Inr 1"
proof -
  define k where "k = \<lfloor>pi / 4 * sqrt (2 ^ 3 / real (2::nat))\<rfloor>"
  have b: "0 \<le> k" "k ^ 2 * 2 < 8" "8 < 8 * (k + 1) ^ 2"
    using iterations_int_bounds [of 2 k 3] by (simp_all add: k_def)
  have "k < 2"
  proof (rule ccontr)
    assume "\<not> k < 2"
    then have "2 * 2 \<le> k * k" by (intro mult_mono) simp_all
    with b(2) show False by (simp add: power2_eq_square)
  qed
  moreover have "k \<noteq> 0" using b(3) by auto
  ultimately have "k = 1" using b(1) by auto
  then show ?thesis using no_overflow_small [of 2 3] by (simp add: optimal_num_iterations_def k_def)
qed



text \<open>
  C18. Outside the regime the formula is meant for: when there are at least as many marked
  states as basis states, the script computes zero amplification rounds.
\<close>

theorem optimal_num_iterations_saturated:
  assumes "2 ^ n \<le> m"
  shows "optimal_num_iterations n m = Inr 0"
proof -
  have "0 < (2::nat) ^ n" by simp
  with assms have m: "m \<noteq> 0" by linarith
  define k where "k = \<lfloor>pi / 4 * sqrt (2 ^ n / real m)\<rfloor>"
  have b: "0 \<le> k" "k ^ 2 * int m < 2 ^ n"
    using iterations_int_bounds [OF m k_def] by simp_all
  have "k ^ 2 * int m < int m"
    using b(2) assms by (simp add: of_nat_le_iff [symmetric] less_le_trans)
  then have "k ^ 2 < 1"
    using m by (simp add: mult_less_cancel_right2)
  then have "k = 0"
  proof (rule contrapos_pp)
    assume "k \<noteq> 0"
    with b(1) have "1 \<le> k" by simp
    then have "1 \<le> k ^ 2" by (rule one_le_power)
    then show "\<not> k ^ 2 < 1" by simp
  qed
  moreover have "\<not> py_div_overflows (2 ^ n) m"
  proof -
    have "real (2 ^ n) / real m \<le> 1" using assms m by (simp add: divide_le_eq)
    also have "(1::real) < 2 ^ 1024 - 2 ^ 970" by simp
    finally show ?thesis by (simp add: py_div_overflows_def)
  qed
  ultimately show ?thesis
    using m by (simp add: optimal_num_iterations_def k_def)
qed

theorem optimal_num_iterations_saturated_witness:
  "optimal_num_iterations 2 4 = Inr 0"
  using optimal_num_iterations_saturated [of 2 4] by simp

end
