(* ===== verification/Search.thy ===== *)
theory Search
  imports Oracle Grover_Operator Iterations
begin

text \<open>
  The search pipeline of \<open>src/main_2.py\<close>, lines 69--86: the marked states of line 69,
  the oracle (line 71), the Grover operator (line 74), the iteration count (lines 77--79,
  where \<open>len(marked_states)\<close> is Python's \<open>len\<close> of the value given, a list or a
  string), and the circuit of lines 80--86 (Hadamards on every qubit, the operator raised
  to the iteration count, a final \<open>measure_all\<close>). Its semantics is summarised by a
  two-dimensional recurrence: while the state is uniform on the marked and on the
  unmarked basis states, a round maps the pair of amplitudes \<open>(a, c)\<close> to
  \<open>grover_step2\<close> of it. The lemmas give the measured distribution of the assembled
  circuit, its total mass on every accepted input, the exceptions of the pipeline, and
  evaluate it on the script's input and on a string argument.
\<close>

section \<open>Definitions\<close>

text \<open>Line 69.\<close>

definition script_marked_states :: marked_input where
  "script_marked_states = MarkedList [''011'', ''100'']"

text \<open>Python's \<open>len(marked_states)\<close> on line 78.\<close>

definition py_len :: "marked_input \<Rightarrow> nat" where
  "py_len m = (case m of MarkedStr s \<Rightarrow> length s | MarkedList ms \<Rightarrow> length ms)"

text \<open>Lines 80--86. The count is a Python int; \<open>power\<close> is called with it.\<close>

definition assemble_circuit :: "qcircuit \<Rightarrow> int \<Rightarrow> py_error + qcircuit" where
  "assemble_circuit grover_op num_iterations =
     sbind (qc_h [0..<num_qubits grover_op] (empty_circuit (num_qubits grover_op))) (\<lambda>qc.
     sbind (qc_compose qc (qc_power grover_op (nat num_iterations))) (\<lambda>qc.
     Inr (qc_measure_all qc)))"

text \<open>Lines 69--86: from the marked states to the circuit and the iteration count.\<close>

definition grover_search :: "marked_input \<Rightarrow> py_error + qcircuit \<times> int" where
  "grover_search marked_states =
     sbind (grover_oracle marked_states) (\<lambda>oracle.
       let grover_op = grover_operator oracle
       in sbind (optimal_num_iterations (num_qubits grover_op) (py_len marked_states)) (\<lambda>k.
          sbind (assemble_circuit grover_op k) (\<lambda>qc. Inr (qc, k))))"

text \<open>
  The abstract model of the amplitudes: a state that is \<open>a\<close> on every marked basis state
  and \<open>c\<close> on every other one, and one Grover round on the pair \<open>(a, c)\<close> for \<open>m\<close>
  marked states among \<open>N\<close>: the oracle negates \<open>a\<close>, the diffusion reflects both about
  the mean.
\<close>

definition two_level :: "nat \<Rightarrow> string list \<Rightarrow> real \<Rightarrow> real \<Rightarrow> amps \<Rightarrow> bool" where
  "two_level n ms a c v \<longleftrightarrow>
     list_all (\<lambda>x. v x = (if label_of_basis x \<in> set ms then a else c)) (basis_states n)"

definition grover_step2 :: "nat \<Rightarrow> nat \<Rightarrow> real \<times> real \<Rightarrow> real \<times> real" where
  "grover_step2 N m ac =
     (let (a, c) = ac; mean = (- (real m * a) + (real N - real m) * c) / real N
      in (2 * mean + a, 2 * mean - c))"

section \<open>The assembled circuit\<close>

lemma assemble_circuit_eq:
  "assemble_circuit gop k =
     Inr \<lparr>num_qubits = num_qubits gop,
          data = map (Op \<circ> H) [0..<num_qubits gop] @
                 replicate (nat k) (Composite (data gop) (global_phase_pi gop)) @
                 Barrier # map Measure [0..<num_qubits gop],
          global_phase_pi = False\<rparr>"
  by (simp add: assemble_circuit_def append_1q_def qc_compose_def qc_power_def
      qc_measure_all_def empty_circuit_def list_all_iff)

lemma exec_composite_run: "exec_instr (Composite (data qc) (global_phase_pi qc)) v = run_circuit qc v"
  by (simp add: run_circuit_def)

lemma exec_replicate:
  "exec_instrs (replicate k i) v = (exec_instr i ^^ k) v"
  by (induction k arbitrary: v) (simp_all add: funpow_swap1)

lemma exec_measures: "exec_instrs (map Measure qs) v = v"
  by (induction qs) simp_all

text \<open>What the assembled circuit computes before its measurements.\<close>

lemma run_assembled:
  assumes "length b = num_qubits gop"
  shows "run_circuit (projr (assemble_circuit gop k)) v b =
           (run_circuit gop ^^ nat k) (exec_instrs (map (Op \<circ> H) [0..<num_qubits gop]) v) b"
  by (simp add: assemble_circuit_eq run_circuit_no_phase exec_replicate exec_measures
      exec_composite_run [abs_def] del: run_circuit_def)

section \<open>Two-level states\<close>

lemma two_level_iff:
  "two_level n ms a c v \<longleftrightarrow> (\<forall>x. length x = n \<longrightarrow> v x = (if label_of_basis x \<in> set ms then a else c))"
  by (auto simp: two_level_def list_all_iff)

text \<open>Distinct bit-strings of width \<open>n\<close> label exactly as many basis states.\<close>

lemma card_marked_basis:
  assumes bits: "\<forall>t \<in> set ms. is_bitstring t \<and> length t = n" and dist: "distinct ms"
  shows "card {x :: basis. length x = n \<and> label_of_basis x \<in> set ms} = length ms"
proof -
  have eq: "{x :: basis. length x = n \<and> label_of_basis x \<in> set ms} = basis_of_string ` set ms"
  proof
    show "{x. length x = n \<and> label_of_basis x \<in> set ms} \<subseteq> basis_of_string ` set ms"
    proof
      fix x :: basis
      assume "x \<in> {x. length x = n \<and> label_of_basis x \<in> set ms}"
      then have "label_of_basis x \<in> set ms" and "x = basis_of_string (label_of_basis x)"
        by simp_all
      then show "x \<in> basis_of_string ` set ms" by blast
    qed
    show "basis_of_string ` set ms \<subseteq> {x. length x = n \<and> label_of_basis x \<in> set ms}"
      using bits by (auto simp: label_of_basis_of_string)
  qed
  have "inj_on basis_of_string (set ms)"
    using bits by (auto intro: inj_onI basis_of_string_inj)
  then show ?thesis
    using dist by (simp add: eq card_image distinct_card)
qed

lemma amp_sum_two_level:
  assumes bits: "\<forall>t \<in> set ms. is_bitstring t \<and> length t = n" and dist: "distinct ms"
    and tl: "two_level n ms a c v"
  shows "amp_sum n v = real (length ms) * a + (2 ^ n - real (length ms)) * c"
proof -
  let ?A = "{x :: basis. length x = n}"
  let ?M = "{x :: basis. length x = n \<and> label_of_basis x \<in> set ms}"
  have M: "?A \<inter> {x. label_of_basis x \<in> set ms} = ?M" and R: "?A \<inter> - {x. label_of_basis x \<in> set ms} = ?A - ?M"
    by auto
  have sub: "?M \<subseteq> ?A" by auto
  have cardM: "card ?M = length ms" using bits dist by (rule card_marked_basis)
  then have le: "length ms \<le> 2 ^ n"
    using card_mono [OF finite_basis sub] by simp
  have "amp_sum n v = (\<Sum>x \<in> ?A. if label_of_basis x \<in> set ms then a else c)"
    using tl by (simp add: amp_sum_eq two_level_iff)
  also have "\<dots> = (\<Sum>x \<in> ?M. a) + (\<Sum>x \<in> ?A - ?M. c)"
    by (simp only: sum.If_cases [OF finite_basis] M R)
  also have "\<dots> = real (length ms) * a + real (2 ^ n - length ms) * c"
    using cardM by (simp add: card_Diff_subset [OF _ sub])
  finally show ?thesis
    using le by (simp add: of_nat_diff)
qed

section \<open>Rounds of the Grover operator on two-level states\<close>

lemma grover_round_two_level:
  assumes built: "grover_oracle mi = Inr oracle"
    and bits: "\<forall>t \<in> set (marked_list mi). is_bitstring t \<and> length t = num_qubits oracle"
    and dist: "distinct (marked_list mi)"
    and tl: "two_level (num_qubits oracle) (marked_list mi) a c v"
  shows "two_level (num_qubits oracle) (marked_list mi)
           (fst (grover_step2 (2 ^ num_qubits oracle) (length (marked_list mi)) (a, c)))
           (snd (grover_step2 (2 ^ num_qubits oracle) (length (marked_list mi)) (a, c)))
           (run_circuit (grover_operator oracle) v)"
proof -
  let ?n = "num_qubits oracle" and ?ms = "marked_list mi"
  let ?m = "real (length ?ms)"
  let ?u = "exec_instrs (data oracle) v"
  have n: "1 \<le> ?n" using grover_oracle_width [OF built] by simp
  have u: "?u x = (if label_of_basis x \<in> set ?ms then - a else c)" if "length x = ?n" for x
    using exec_grover_oracle_marked(1) [OF built bits dist that, of v] tl that
    by (simp add: two_level_iff)
  then have tlu: "two_level ?n ?ms (- a) c ?u" by (simp add: two_level_iff)
  have s: "amp_sum ?n ?u = ?m * (- a) + (2 ^ ?n - ?m) * c"
    using bits dist tlu by (rule amp_sum_two_level)
  have "run_circuit (grover_operator oracle) v x =
          (if label_of_basis x \<in> set ?ms
           then fst (grover_step2 (2 ^ ?n) (length ?ms) (a, c))
           else snd (grover_step2 (2 ^ ?n) (length ?ms) (a, c)))"
    if "length x = ?n" for x
  proof -
    have "run_circuit (grover_operator oracle) v x = 2 * amp_sum ?n ?u / 2 ^ ?n - ?u x"
      using grover_operator_body_diffusion [OF n that] .
    then show ?thesis
      using u [OF that] s by (simp add: grover_step2_def Let_def)
  qed
  then show ?thesis by (simp add: two_level_iff)
qed

lemma grover_rounds_two_level:
  assumes built: "grover_oracle mi = Inr oracle"
    and bits: "\<forall>t \<in> set (marked_list mi). is_bitstring t \<and> length t = num_qubits oracle"
    and dist: "distinct (marked_list mi)"
    and tl: "two_level (num_qubits oracle) (marked_list mi) a c v"
  shows "two_level (num_qubits oracle) (marked_list mi)
           (fst ((grover_step2 (2 ^ num_qubits oracle) (length (marked_list mi)) ^^ k) (a, c)))
           (snd ((grover_step2 (2 ^ num_qubits oracle) (length (marked_list mi)) ^^ k) (a, c)))
           ((run_circuit (grover_operator oracle) ^^ k) v)"
proof (induction k)
  case 0
  then show ?case using tl by simp
next
  case (Suc k)
  let ?p = "(grover_step2 (2 ^ num_qubits oracle) (length (marked_list mi)) ^^ k) (a, c)"
  have "two_level (num_qubits oracle) (marked_list mi)
          (fst (grover_step2 (2 ^ num_qubits oracle) (length (marked_list mi)) (fst ?p, snd ?p)))
          (snd (grover_step2 (2 ^ num_qubits oracle) (length (marked_list mi)) (fst ?p, snd ?p)))
          (run_circuit (grover_operator oracle) ((run_circuit (grover_operator oracle) ^^ k) v))"
    using built bits dist Suc.IH by (rule grover_round_two_level)
  then show ?case by simp
qed

text \<open>The Hadamard layer of line 82 on \<open>|0\<dots>0\<rangle>\<close> is two-level with both amplitudes \<open>1/\<surd>2\<^sup>n\<close>.\<close>

lemma h_layer_two_level:
  "two_level n ms (1 / sqrt 2 ^ n) (1 / sqrt 2 ^ n)
     (exec_instrs (map (Op \<circ> H) [0..<n]) (ket (replicate n False)))"
  by (simp add: two_level_iff h_layer_ket_zeros)

section \<open>The measured distribution\<close>

lemma grover_search_InrD:
  assumes "grover_search mi = Inr (qc, k)"
  obtains orc where "grover_oracle mi = Inr orc"
    and "optimal_num_iterations (num_qubits orc) (py_len mi) = Inr k"
    and "qc = projr (assemble_circuit (grover_operator orc) k)"
    and "num_qubits qc = num_qubits orc"
  using assms
  by (auto simp: grover_search_def sbind_eq_Inr_iff assemble_circuit_eq grover_operator_def Let_def)

text \<open>
  The probability of every outcome \<open>b\<close> of the assembled circuit: the square of the
  marked or the unmarked amplitude of the recurrence after \<open>k\<close> rounds from the uniform
  state.
\<close>

lemma grover_search_probability:
  assumes search: "grover_search mi = Inr (qc, k)"
    and bits: "\<forall>t \<in> set (marked_list mi). is_bitstring t \<and> length t = num_qubits qc"
    and dist: "distinct (marked_list mi)"
    and b: "length b = num_qubits qc"
  shows "probability qc b =
    (let p = (grover_step2 (2 ^ num_qubits qc) (length (marked_list mi)) ^^ nat k)
               (1 / sqrt 2 ^ num_qubits qc, 1 / sqrt 2 ^ num_qubits qc)
     in (if label_of_basis b \<in> set (marked_list mi) then fst p else snd p)\<^sup>2)"
proof -
  obtain orc where built: "grover_oracle mi = Inr orc"
    and qc: "qc = projr (assemble_circuit (grover_operator orc) k)"
    and w: "num_qubits qc = num_qubits orc"
    using search by (rule grover_search_InrD)
  let ?n = "num_qubits orc"
  let ?s = "1 / sqrt 2 ^ ?n"
  have bits': "\<forall>t \<in> set (marked_list mi). is_bitstring t \<and> length t = ?n"
    using bits w by simp
  have tl: "two_level ?n (marked_list mi)
              (fst ((grover_step2 (2 ^ ?n) (length (marked_list mi)) ^^ nat k) (?s, ?s)))
              (snd ((grover_step2 (2 ^ ?n) (length (marked_list mi)) ^^ nat k) (?s, ?s)))
              ((run_circuit (grover_operator orc) ^^ nat k)
                 (exec_instrs (map (Op \<circ> H) [0..<?n]) (ket (replicate ?n False))))"
    using built bits' dist h_layer_two_level by (rule grover_rounds_two_level)
  have gw: "num_qubits (grover_operator orc) = ?n"
    by (simp add: grover_operator_def Let_def)
  have "probability qc b =
          ((run_circuit (grover_operator orc) ^^ nat k)
             (exec_instrs (map (Op \<circ> H) [0..<?n]) (ket (replicate ?n False))) b)\<^sup>2"
    using run_assembled [of b "grover_operator orc" k "ket (replicate ?n False)"] b w gw qc
    by (simp add: probability_def)
  then show ?thesis
    using tl b w by (simp add: two_level_iff Let_def)
qed

text \<open>A built oracle has a non-empty list of marked states, so line 78 divides by a positive number.\<close>

lemma py_len_pos:
  assumes "grover_oracle mi = Inr orc" shows "0 < py_len mi"
proof -
  obtain m0 ms where "marked_list mi = m0 # ms" and "2 \<le> length m0"
    using assms by (rule grover_oracle_InrD)
  then show ?thesis by (cases mi) (auto simp: py_len_def marked_list_def)
qed

text \<open>The assembled circuit of a well-formed operator is well formed.\<close>

lemma wf_assembled:
  "wf_circuit gop \<Longrightarrow> wf_circuit (projr (assemble_circuit gop k))"
  by (auto simp: wf_circuit_def assemble_circuit_eq)

text \<open>Every circuit the pipeline returns is well formed, on at least two qubits.\<close>

lemma wf_grover_search:
  assumes search: "grover_search mi = Inr (qc, k)"
  shows "wf_circuit qc \<and> 2 \<le> num_qubits qc"
proof -
  obtain orc where built: "grover_oracle mi = Inr orc"
    and qc: "qc = projr (assemble_circuit (grover_operator orc) k)"
    and w: "num_qubits qc = num_qubits orc"
    using search by (rule grover_search_InrD)
  have "wf_circuit qc"
    unfolding qc using wf_grover_oracle [OF built] grover_oracle_width [OF built]
    by (intro wf_assembled wf_grover_operator) simp_all
  with w grover_oracle_width [OF built] show ?thesis by simp
qed

section \<open>Properties of the pipeline\<close>

text \<open>
  C3. Qiskit's \<open>power(k)\<close> of the Grover operator refines \<open>k\<close> steps of the
  two-dimensional recurrence: on a state that is \<open>a\<close> on the marked and \<open>c\<close> on the
  unmarked basis states, it yields the state with the amplitudes \<open>grover_step2\<close> reaches
  after \<open>k\<close> steps from \<open>(a, c)\<close>, for \<open>m\<close> marked states among \<open>2\<^sup>n\<close>.
\<close>

theorem grover_power_refines:
  assumes built: "grover_oracle mi = Inr orc"
    and bits: "\<forall>t \<in> set (marked_list mi). is_bitstring t \<and> length t = num_qubits orc"
    and dist: "distinct (marked_list mi)"
    and tl: "two_level (num_qubits orc) (marked_list mi) a c v"
  shows "two_level (num_qubits orc) (marked_list mi)
           (fst ((grover_step2 (2 ^ num_qubits orc) (length (marked_list mi)) ^^ k) (a, c)))
           (snd ((grover_step2 (2 ^ num_qubits orc) (length (marked_list mi)) ^^ k) (a, c)))
           (exec_instrs (data (qc_power (grover_operator orc) k)) v)"
  using grover_rounds_two_level [OF built bits dist tl, of k]
  by (simp add: qc_power_def exec_replicate exec_composite_run [abs_def] del: run_circuit_def)

theorem grover_power_refines_witness:
  "\<exists>orc. grover_oracle script_marked_states = Inr orc \<and>
     two_level 3 [''011'', ''100''] (2 / sqrt 8) 0
       (exec_instrs (data (qc_power (grover_operator orc) 1)) (\<lambda>_. 1 / sqrt 8))"
proof -
  obtain orc where built: "grover_oracle script_marked_states = Inr orc"
    and w: "num_qubits orc = 3"
    using grover_oracle_Inr [of script_marked_states "''011''" "[''100'']"]
    by (simp add: script_marked_states_def marked_list_def)
  have bits: "\<forall>t \<in> set (marked_list script_marked_states). is_bitstring t \<and> length t = num_qubits orc"
    and dist: "distinct (marked_list script_marked_states)"
    using w by (simp_all add: script_marked_states_def marked_list_def is_bitstring_def)
  have tl: "two_level (num_qubits orc) (marked_list script_marked_states)
              (1 / sqrt 8) (1 / sqrt 8) (\<lambda>_. 1 / sqrt 8)"
    by (simp add: two_level_iff)
  show ?thesis
    using built grover_power_refines [OF built bits dist tl, of 1] w
    by (simp add: script_marked_states_def marked_list_def grover_step2_def Let_def field_simps)
qed

text \<open>
  The probability that the assembled circuit measures one of the marked states is
  \<open>m a\<^sub>k\<^sup>2\<close>, where \<open>a\<^sub>k\<close> is the marked amplitude after \<open>k\<close> steps of the recurrence.
\<close>

lemma marked_probability_sum:
  assumes search: "grover_search mi = Inr (qc, k)"
    and bits: "\<forall>t \<in> set (marked_list mi). is_bitstring t \<and> length t = num_qubits qc"
    and dist: "distinct (marked_list mi)"
  shows "(\<Sum>b | length b = num_qubits qc \<and> label_of_basis b \<in> set (marked_list mi). probability qc b) =
         real (length (marked_list mi)) *
         (fst ((grover_step2 (2 ^ num_qubits qc) (length (marked_list mi)) ^^ nat k)
                 (1 / sqrt 2 ^ num_qubits qc, 1 / sqrt 2 ^ num_qubits qc)))\<^sup>2"
proof -
  let ?p = "(grover_step2 (2 ^ num_qubits qc) (length (marked_list mi)) ^^ nat k)
              (1 / sqrt 2 ^ num_qubits qc, 1 / sqrt 2 ^ num_qubits qc)"
  let ?M = "{b :: basis. length b = num_qubits qc \<and> label_of_basis b \<in> set (marked_list mi)}"
  have "(\<Sum>b \<in> ?M. probability qc b) = (\<Sum>b \<in> ?M. (fst ?p)\<^sup>2)"
    using grover_search_probability [OF search bits dist] by (intro sum.cong) (simp_all add: Let_def)
  also have "\<dots> = real (card ?M) * (fst ?p)\<^sup>2" by simp
  finally show ?thesis
    using card_marked_basis [OF bits dist] by simp
qed

text \<open>The script's run: the search succeeds with one round on three qubits.\<close>

lemma grover_search_Inr:
  assumes "grover_oracle mi = Inr orc"
    and "optimal_num_iterations (num_qubits orc) (py_len mi) = Inr k"
  shows "grover_search mi = Inr (projr (assemble_circuit (grover_operator orc) k), k)"
  using assms by (simp add: grover_search_def grover_operator_def Let_def assemble_circuit_eq)

lemma script_search:
  obtains qc where "grover_search script_marked_states = Inr (qc, 1)" and "num_qubits qc = 3"
proof -
  obtain orc where built: "grover_oracle script_marked_states = Inr orc" and w: "num_qubits orc = 3"
    using grover_oracle_Inr [of script_marked_states "''011''" "[''100'']"]
    by (simp add: script_marked_states_def marked_list_def)
  have "optimal_num_iterations (num_qubits orc) (py_len script_marked_states) = Inr 1"
    using w script_iterations [unfolded numeral_2_eq_2] by (simp add: py_len_def script_marked_states_def)
  then have "grover_search script_marked_states =
          Inr (projr (assemble_circuit (grover_operator orc) 1), 1)"
    by (rule grover_search_Inr [OF built])
  moreover have "num_qubits (projr (assemble_circuit (grover_operator orc) 1)) = 3"
    using w by (simp add: assemble_circuit_eq grover_operator_def Let_def)
  ultimately show ?thesis using that by blast
qed

lemma script_marked_props:
  "\<forall>t \<in> set (marked_list script_marked_states). is_bitstring t \<and> length t = 3"
  "distinct (marked_list script_marked_states)"
  by (simp_all add: script_marked_states_def marked_list_def is_bitstring_def)

text \<open>
  C14. The pipeline of lines 69--86 raises exactly the exceptions \<open>grover_oracle\<close> raises,
  and \<open>OverflowError\<close> at line 78 when the oracle is built but \<open>2\<^sup>n / len(marked_states)\<close>
  is too large for a float; the circuit assembly never fails, and the
  \<open>ZeroDivisionError\<close> line 78 could raise never happens, since an empty list of marked
  states already fails at line 52.
\<close>

theorem grover_search_error:
  "(grover_search mi = Inl e \<longleftrightarrow>
      grover_oracle mi = Inl e \<or>
      (\<exists>orc. grover_oracle mi = Inr orc \<and> py_div_overflows (2 ^ num_qubits orc) (py_len mi) \<and>
             e = OverflowError)) \<and>
   grover_search mi \<noteq> Inl ZeroDivisionError"
proof (cases "grover_oracle mi")
  case (Inl e')
  then show ?thesis
    using grover_oracle_Inl_cases [OF Inl] by (auto simp: grover_search_def)
next
  case (Inr orc)
  then show ?thesis
    using py_len_pos [OF Inr]
    by (auto simp: grover_search_def optimal_num_iterations_def grover_operator_def Let_def
        assemble_circuit_eq)
qed

theorem grover_search_error_witness:
  "grover_search (MarkedList []) = Inl IndexError \<and> grover_search (MarkedStr '''') = Inl CircuitError \<and>
   grover_search (MarkedList [replicate 1024 CHR ''0'']) = Inl OverflowError"
proof -
  have "grover_oracle (MarkedList []) = Inl IndexError"
    by (simp add: grover_oracle_def marked_list_def)
  moreover have "grover_oracle (MarkedStr '''') = Inl CircuitError"
    using grover_oracle_few_qubits [of "MarkedStr ''''" "''''" "[]"]
    by (simp add: marked_list_def mcmt_error_def)
  moreover have built: "grover_oracle (MarkedList [replicate 1024 CHR ''0'']) =
      Inr \<lparr>num_qubits = 1024, data = concat (map (target_gates 1024) [replicate 1024 CHR ''0'']),
           global_phase_pi = False\<rparr>"
    using grover_oracle_Inr [of "MarkedList [replicate 1024 CHR ''0'']" "replicate 1024 CHR ''0''" "[]"]
    by (simp add: marked_list_def del: concat.simps list.map)
  moreover have "py_div_overflows (2 ^ 1024) (py_len (MarkedList [replicate 1024 CHR ''0'']))"
    by (simp add: py_div_overflows_def py_len_def)
  ultimately show ?thesis
    using grover_search_error [of "MarkedList []" IndexError]
      grover_search_error [of "MarkedStr ''''" CircuitError]
      grover_search_error [of "MarkedList [replicate 1024 CHR ''0'']" OverflowError]
    by auto
qed

text \<open>
  C10. When the count is 0 (as for \<open>m \<ge> 2\<^sup>n\<close>), \<open>grover_op.power(0)\<close> applies nothing
  and the circuit measures the uniform superposition of line 82: every outcome has
  probability \<open>1/2\<^sup>n\<close> (the spec's repetition property for \<open>k = 0\<close>).
\<close>

theorem grover_search_zero_rounds:
  assumes search: "grover_search mi = Inr (qc, 0)" and b: "length b = num_qubits qc"
  shows "probability qc b = 1 / 2 ^ num_qubits qc"
proof -
  obtain orc where qc: "qc = projr (assemble_circuit (grover_operator orc) 0)"
    and w: "num_qubits qc = num_qubits orc"
    using search by (rule grover_search_InrD)
  let ?n = "num_qubits orc"
  have gw: "num_qubits (grover_operator orc) = ?n" by (simp add: grover_operator_def Let_def)
  have "run_circuit qc (ket (replicate ?n False)) b =
        exec_instrs (map (Op \<circ> H) [0..<?n]) (ket (replicate ?n False)) b"
    using run_assembled [of b "grover_operator orc" 0 "ket (replicate ?n False)"] b w gw qc by simp
  also have "\<dots> = 1 / sqrt 2 ^ ?n"
    using b w by (intro h_layer_ket_zeros covers_upt) simp
  finally show ?thesis
    using w sqrt2_pow_sq [of ?n] by (simp add: probability_def power2_eq_square)
qed

section \<open>The script's input and a string argument\<close>

lemma sq8: "sqrt 2 ^ 6 = (8::real)"
  using power_mult [of "sqrt 2 :: real" 2 3] by simp

lemma script_step: "grover_step2 8 2 (1 / sqrt 2 ^ 3, 1 / sqrt 2 ^ 3) = (2 / sqrt 2 ^ 3, 0)"
  by (simp add: grover_step2_def Let_def field_simps)

lemma iterations_2_4: "optimal_num_iterations 2 4 = Inr 0"
proof -
  have "0 \<le> pi / 4" "pi / 4 < 1" using pi_gt_zero pi_less_4 by simp_all
  then show ?thesis using no_overflow_small [of 4 2] by (simp add: optimal_num_iterations_def floor_eq_iff)
qed

lemma iterations_4_4: "optimal_num_iterations 4 4 = Inr 1"
proof -
  define k where "k = \<lfloor>pi / 4 * sqrt (2 ^ 4 / real (4::nat))\<rfloor>"
  have b: "0 \<le> k" "k ^ 2 * 4 < 16" "16 < 16 * (k + 1) ^ 2"
    using iterations_int_bounds [of 4 k 4] by (simp_all add: k_def)
  have "k < 2"
  proof (rule ccontr)
    assume "\<not> k < 2"
    then have "2 * 2 \<le> k * k" by (intro mult_mono) simp_all
    with b(2) show False by (simp add: power2_eq_square)
  qed
  moreover have "k \<noteq> 0" using b(3) by auto
  ultimately have "k = 1" using b(1) by auto
  then show ?thesis using no_overflow_small [of 4 4] by (simp add: optimal_num_iterations_def k_def)
qed

text \<open>The script's run measures \<open>011\<close> and \<open>100\<close> with probability \<open>1/2\<close> each.\<close>

lemma script_probability:
  assumes search: "grover_search script_marked_states = Inr (qc, 1)" and w: "num_qubits qc = 3"
    and b: "length b = 3"
  shows "probability qc b = (if label_of_basis b \<in> set [''011'', ''100''] then 1 / 2 else 0)"
proof -
  have script_list: "marked_list script_marked_states = [''011'', ''100'']"
    by (simp add: script_marked_states_def marked_list_def)
  have bits: "\<forall>t \<in> set (marked_list script_marked_states). is_bitstring t \<and> length t = num_qubits qc"
    using script_marked_props(1) w by simp
  have "probability qc b =
    (let p = (grover_step2 (2 ^ 3) 2 ^^ nat 1) (1 / sqrt 2 ^ 3, 1 / sqrt 2 ^ 3)
     in (if label_of_basis b \<in> set [''011'', ''100''] then fst p else snd p)\<^sup>2)"
    using grover_search_probability [OF search bits script_marked_props(2) b [folded w]]
    unfolding w script_list by (simp add: numeral_2_eq_2 [symmetric])
  then show ?thesis
    by (simp add: script_step power_divide sq8)
qed

text \<open>
  C6. On the script's input \<open>["011", "100"]\<close> (line 69) the pipeline computes one round
  on three qubits; the circuit is three Hadamards, one application of the Grover operator
  (the oracle, then the diffusion) and three measurements; and the measured distribution,
  listed in Qiskit's order of outcomes
  \<open>000, 001, \<dots>, 111\<close>, is \<open>1/2\<close> on \<open>011\<close> and on \<open>100\<close> and \<open>0\<close> elsewhere: the
  script finds a marked state with certainty.
\<close>

theorem script_distribution:
  "\<exists>qc orc. grover_search script_marked_states = Inr (qc, 1) \<and> num_qubits qc = 3 \<and>
     grover_oracle script_marked_states = Inr orc \<and>
     data qc = map (Op \<circ> H) [0..<3] @ [Composite (data (grover_operator orc)) True] @
               Barrier # map Measure [0..<3] \<and>
     map (probability qc) (basis_states 3) = [0, 0, 0, 1 / 2, 1 / 2, 0, 0, 0]"
proof -
  obtain orc where built: "grover_oracle script_marked_states = Inr orc" and wo: "num_qubits orc = 3"
    using grover_oracle_Inr [of script_marked_states "''011''" "[''100'']"]
    by (simp add: script_marked_states_def marked_list_def)
  define qc where "qc = projr (assemble_circuit (grover_operator orc) 1)"
  have "optimal_num_iterations (num_qubits orc) (py_len script_marked_states) = Inr 1"
    using wo script_iterations [unfolded numeral_2_eq_2] by (simp add: py_len_def script_marked_states_def)
  then have search: "grover_search script_marked_states = Inr (qc, 1)"
    unfolding qc_def by (rule grover_search_Inr [OF built])
  have w: "num_qubits qc = 3" and shape:
    "data qc = map (Op \<circ> H) [0..<3] @ [Composite (data (grover_operator orc)) True] @
               Barrier # map Measure [0..<3]"
    using wo by (simp_all add: qc_def assemble_circuit_eq grover_operator_def Let_def)
  have p: "probability qc b = (if label_of_basis b \<in> set [''011'', ''100''] then 1 / 2 else 0)"
    if "length b = 3" for b
    using search w that by (rule script_probability)
  have "map (probability qc) (basis_states 3) =
        map (\<lambda>b. if label_of_basis b \<in> set [''011'', ''100''] then 1 / 2 else 0) (basis_states 3)"
    by (rule map_cong) (simp_all add: p)
  also have "\<dots> = [0, 0, 0, 1 / 2, 1 / 2, 0, 0, 0]"
    by (simp add: basis_states_def numeral_3_eq_3 label_of_basis_def char_of_bit_def)
  finally show ?thesis using search w built shape by (intro exI [of _ qc] exI [of _ orc] conjI)
qed

text \<open>
  C17. Line 78 divides by \<open>len(marked_states)\<close> after line 50 wrapped a string argument
  into a list: for the string \<open>"0110"\<close>, one marked state, the count is taken over its four
  characters and the script makes one round, where the same state given as a list gets at
  least two.
\<close>

theorem grover_search_string_count:
  "(\<exists>qc. grover_search (MarkedStr ''0110'') = Inr (qc, 1)) \<and>
   (\<exists>qc k. grover_search (MarkedList [''0110'']) = Inr (qc, k) \<and> 2 \<le> k)"
proof
  obtain orc where built: "grover_oracle (MarkedStr ''0110'') = Inr orc" and w: "num_qubits orc = 4"
    using grover_oracle_Inr [of "MarkedStr ''0110''" "''0110''" "[]"] by (simp add: marked_list_def)
  have "optimal_num_iterations (num_qubits orc) (py_len (MarkedStr ''0110'')) = Inr 1"
    using w iterations_4_4 by (simp add: py_len_def numeral_eq_Suc)
  then show "\<exists>qc. grover_search (MarkedStr ''0110'') = Inr (qc, 1)"
    using grover_search_Inr [OF built] by blast
next
  obtain orc where built: "grover_oracle (MarkedList [''0110'']) = Inr orc" and w: "num_qubits orc = 4"
    using grover_oracle_Inr [of "MarkedList [''0110'']" "''0110''" "[]"] by (simp add: marked_list_def)
  define k where "k = \<lfloor>pi / 4 * sqrt (2 ^ 4 / real (1::nat))\<rfloor>"
  have b: "0 \<le> k" "16 < 4 * (k + 1) ^ 2"
    using iterations_int_bounds [of 1 k 4] by (simp_all add: k_def)
  have "2 \<le> k"
  proof (rule ccontr)
    assume "\<not> 2 \<le> k"
    then have "(k + 1) * (k + 1) \<le> 2 * 2" using b(1) by (intro mult_mono) simp_all
    with b(2) show False by (simp add: power2_eq_square)
  qed
  moreover have "optimal_num_iterations (num_qubits orc) (py_len (MarkedList [''0110''])) = Inr k"
    using w no_overflow_small [of 1 4] by (simp add: py_len_def optimal_num_iterations_def k_def)
  ultimately show "\<exists>qc k. grover_search (MarkedList [''0110'']) = Inr (qc, k) \<and> 2 \<le> k"
    using grover_search_Inr [OF built] by blast
qed

theorem grover_search_zero_rounds_witness:
  "\<exists>qc. grover_search (MarkedList [''00'', ''01'', ''10'', ''11'']) = Inr (qc, 0) \<and>
     probability qc [True, False] = 1 / 4"
proof -
  obtain orc where built: "grover_oracle (MarkedList [''00'', ''01'', ''10'', ''11'']) = Inr orc"
    and w: "num_qubits orc = 2"
    using grover_oracle_Inr [of "MarkedList [''00'', ''01'', ''10'', ''11'']" "''00''" "[''01'', ''10'', ''11'']"]
    by (simp add: marked_list_def)
  have "optimal_num_iterations (num_qubits orc) (py_len (MarkedList [''00'', ''01'', ''10'', ''11''])) = Inr 0"
    using w iterations_2_4 by (simp add: py_len_def numeral_eq_Suc)
  then have search: "grover_search (MarkedList [''00'', ''01'', ''10'', ''11'']) =
                       Inr (projr (assemble_circuit (grover_operator orc) 0), 0)"
    by (rule grover_search_Inr [OF built])
  have "probability (projr (assemble_circuit (grover_operator orc) 0)) [True, False] =
        1 / 2 ^ num_qubits (projr (assemble_circuit (grover_operator orc) 0))"
    using search by (rule grover_search_zero_rounds) (simp add: assemble_circuit_eq grover_operator_def w)
  then show ?thesis
    using search w by (auto simp: assemble_circuit_eq grover_operator_def)
qed

end
