(* ===== verification/Success.thy ===== *)
theory Success
  imports Search
begin

text \<open>
  How likely the script's circuit is to find a marked state. The two-level recurrence of
  \<open>Search\<close> is a rotation: with \<open>sin \<theta> = \<surd>(m/N)\<close> (\<open>grover_angle\<close>) the marked
  amplitude after \<open>k\<close> rounds from the uniform state is \<open>sin((2k + 1)\<theta>)/\<surd>m\<close>, so the
  probability of measuring a marked state is \<open>sin\<^sup>2((2k + 1)\<theta>)\<close> (C4). The count of
  lines 77--79, \<open>k = \<lfloor>\<pi>/(4 sin \<theta>)\<rfloor>\<close>, puts \<open>(2k + 1)\<theta>\<close> within \<open>2\<theta>\<close> of
  \<open>\<pi>/2\<close> when \<open>4m \<le> 2\<^sup>n\<close>, the regime of the spec (section 4.3), which bounds that
  probability below by \<open>cos\<^sup>2(2\<theta>) = (1 - 2m/2\<^sup>n)\<^sup>2\<close>.
\<close>

section \<open>Definitions\<close>

text \<open>
  The angle \<open>\<theta>\<close> of the rounds: \<open>sin \<theta> = \<surd>(m/N)\<close>; each round turns the state by
  \<open>2\<theta>\<close> in the plane of the marked and the unmarked uniform states.
\<close>

definition grover_angle :: "nat \<Rightarrow> nat \<Rightarrow> real" where
  "grover_angle N m = arcsin (sqrt (real m / real N))"

section \<open>The rotation\<close>

lemma grover_angle_sin_cos:
  assumes "0 < m" "m < N"
  shows "sin (grover_angle N m) = sqrt m / sqrt N"
    and "cos (grover_angle N m) = sqrt (real N - real m) / sqrt N"
proof -
  have le: "sqrt (real m / real N) \<le> 1" using assms by simp
  have ge: "- 1 \<le> sqrt (real m / real N)" by (rule order_trans [of _ 0]) simp_all
  show "sin (grover_angle N m) = sqrt m / sqrt N"
    unfolding grover_angle_def using le ge by (simp add: real_sqrt_divide)
  have "cos (grover_angle N m) = sqrt (1 - (sqrt (real m / real N))\<^sup>2)"
    unfolding grover_angle_def by (rule cos_arcsin [OF ge le])
  also have "1 - (sqrt (real m / real N))\<^sup>2 = (real N - real m) / real N"
    using assms by (simp add: field_simps)
  finally show "cos (grover_angle N m) = sqrt (real N - real m) / sqrt N"
    by (simp add: real_sqrt_divide)
qed

lemma grover_step2_angle:
  assumes "0 < m" "m < N"
  shows "grover_step2 N m (sin \<phi> / sqrt m, cos \<phi> / sqrt (real N - real m)) =
           (sin (\<phi> + 2 * grover_angle N m) / sqrt m,
            cos (\<phi> + 2 * grover_angle N m) / sqrt (real N - real m))"
proof -
  let ?t = "grover_angle N m"
  have m: "0 < sqrt (real m)" and d: "0 < sqrt (real N - real m)" and n: "0 < sqrt (real N)"
    using assms by simp_all
  have sm: "sqrt (real m) * sqrt (real m) = real m" and sd: "sqrt (real N - real m) * sqrt (real N - real m) = real N - real m"
    and sn: "sqrt (real N) * sqrt (real N) = real N"
    using assms by simp_all
  note sc = grover_angle_sin_cos [OF assms]
  have mean: "(- (real m * (sin \<phi> / sqrt m)) + (real N - real m) * (cos \<phi> / sqrt (real N - real m))) / real N
              = cos (\<phi> + ?t) / sqrt N"
    using m d n sm sd sn by (simp add: cos_add sc field_simps)
  have e1: "sin (\<phi> + 2 * ?t) = sin \<phi> + 2 * cos (\<phi> + ?t) * sin ?t"
  proof -
    have e: "\<phi> + ?t + ?t = \<phi> + 2 * ?t" and e': "\<phi> + ?t - ?t = \<phi>" by simp_all
    show ?thesis
      using sin_add [of "\<phi> + ?t" ?t, unfolded e] sin_diff [of "\<phi> + ?t" ?t, unfolded e'] by linarith
  qed
  have e2: "cos (\<phi> + 2 * ?t) = 2 * cos (\<phi> + ?t) * cos ?t - cos \<phi>"
  proof -
    have e: "\<phi> + ?t + ?t = \<phi> + 2 * ?t" and e': "\<phi> + ?t - ?t = \<phi>" by simp_all
    show ?thesis
      using cos_add [of "\<phi> + ?t" ?t, unfolded e] cos_diff [of "\<phi> + ?t" ?t, unfolded e'] by linarith
  qed
  have a: "2 * (cos (\<phi> + ?t) / sqrt N) + sin \<phi> / sqrt m = sin (\<phi> + 2 * ?t) / sqrt m"
    using m n by (simp add: e1 sc field_simps)
  have c: "2 * (cos (\<phi> + ?t) / sqrt N) - cos \<phi> / sqrt (real N - real m) =
           cos (\<phi> + 2 * ?t) / sqrt (real N - real m)"
    using d n by (simp add: e2 sc field_simps)
  show ?thesis
    unfolding grover_step2_def Let_def prod.case mean a c by (rule refl)
qed
text \<open>From the uniform amplitude the recurrence reaches the angle \<open>(2k + 1)\<theta>\<close>.\<close>

lemma grover_step2_funpow_angle:
  assumes "0 < m" "m < N"
  shows "(grover_step2 N m ^^ k) (1 / sqrt N, 1 / sqrt N) =
           (sin ((2 * real k + 1) * grover_angle N m) / sqrt m,
            cos ((2 * real k + 1) * grover_angle N m) / sqrt (real N - real m))"
proof (induction k)
  case 0
  have "0 < sqrt (real m)" "0 < sqrt (real N - real m)" using assms by simp_all
  then show ?case by (simp add: grover_angle_sin_cos [OF assms])
next
  case (Suc k)
  have "(2 * real k + 1) * grover_angle N m + 2 * grover_angle N m =
        (2 * real (Suc k) + 1) * grover_angle N m"
    by (simp add: algebra_simps)
  then show ?case using Suc by (simp add: grover_step2_angle [OF assms])
qed

section \<open>Bounds on the sine\<close>

lemma sin_ge_cubic:
  assumes "0 \<le> (x::real)"
  shows "x - x ^ 3 / 6 \<le> sin x"
proof -
  obtain t where "sin x = (\<Sum>m<3. sin_coeff m * x ^ m) + sin (t + 1 / 2 * real 3 * pi) / fact 3 * x ^ 3"
    using Maclaurin_sin_expansion2 [of x 3] by blast
  moreover have "sin (t + 1 / 2 * real 3 * pi) = - cos t"
  proof -
    have "t + 1 / 2 * real 3 * pi = (t + pi / 2) + pi" by simp
    then show ?thesis by (simp only: sin_periodic_pi) (simp add: sin_add)
  qed
  moreover have "(\<Sum>m<3. sin_coeff m * x ^ m) = x"
    by (simp add: sin_coeff_def numeral_3_eq_3 lessThan_Suc)
  moreover have "- cos t / 6 * x ^ 3 \<ge> - (x ^ 3) / 6"
  proof -
    have "cos t * x ^ 3 \<le> 1 * x ^ 3"
      using assms cos_le_one [of t] by (intro mult_right_mono) simp_all
    then show ?thesis by simp
  qed
  ultimately show ?thesis by (simp add: fact_numeral)
qed


lemma rounds_deviation:
  assumes t0: "0 < t" and t1: "t \<le> 2 / 3"
    and k1: "real_of_int k \<le> pi / (4 * sin t)" and k2: "pi / (4 * sin t) < real_of_int k + 1"
  shows "\<bar>(2 * real_of_int k + 1) * t - pi / 2\<bar> \<le> 2 * t"
proof -
  have s0: "0 < sin t"
    using t0 t1 pi_ge_two by (intro sin_gt_zero) simp_all
  have st: "sin t \<le> t" using t0 by (intro sin_x_le_x) simp
  have cubic: "t - t ^ 3 / 6 \<le> sin t" using t0 by (intro sin_ge_cubic) simp
  \<comment> \<open>upper bound: \<open>\<pi> t \<le> sin t (\<pi> + 2 t)\<close>\<close>
  have poly: "pi * t \<le> (t - t ^ 3 / 6) * (pi + 2 * t)"
  proof -
    have a: "pi * t / 6 \<le> 4 / 9"
    proof -
      have "pi * t \<le> 4 * (2 / 3)" using t0 t1 pi_less_4 by (intro mult_mono) simp_all
      then show ?thesis by simp
    qed
    have b: "t\<^sup>2 / 3 \<le> 4 / 27"
    proof -
      have "t\<^sup>2 \<le> (2 / 3)\<^sup>2" using t0 t1 by (intro power_mono) simp_all
      then show ?thesis by (simp add: power2_eq_square)
    qed
    have "0 \<le> t\<^sup>2 * (2 - pi * t / 6 - t\<^sup>2 / 3)"
      using a b by (intro mult_nonneg_nonneg) simp_all
    then show ?thesis by (simp add: algebra_simps power2_eq_square power3_eq_cube)
  qed
  have up: "pi * t \<le> sin t * (pi + 2 * t)"
    using order_trans [OF poly mult_right_mono [OF cubic]] t0 pi_gt_zero by simp
  have "(2 * real_of_int k + 1) * t \<le> (2 * (pi / (4 * sin t)) + 1) * t"
    using k1 t0 by (intro mult_right_mono) simp_all
  also have "\<dots> = pi * t / (2 * sin t) + t" using s0 by (simp add: field_simps)
  also have "\<dots> \<le> pi / 2 + 2 * t"
    using up s0 by (simp add: field_simps)
  finally have hi: "(2 * real_of_int k + 1) * t \<le> pi / 2 + 2 * t" .
  have "pi / 2 - t \<le> pi * t / (2 * sin t) - t"
    using st s0 t0 pi_gt_zero by (simp add: field_simps mult_left_mono)
  also have "\<dots> = (2 * (pi / (4 * sin t) - 1) + 1) * t" using s0 by (simp add: field_simps)
  also have "\<dots> \<le> (2 * real_of_int k + 1) * t"
    using k2 t0 by (intro mult_right_mono) simp_all
  finally have lo: "pi / 2 - t \<le> (2 * real_of_int k + 1) * t" .
  show ?thesis using hi lo t0 by simp
qed


lemma sin_sq_near_half_pi:
  assumes dev: "\<bar>x - pi / 2\<bar> \<le> d" and d: "d \<le> pi / 2"
  shows "(cos d)\<^sup>2 \<le> (sin x)\<^sup>2"
proof -
  have d0: "0 \<le> d" using dev by linarith
  have c0: "0 \<le> cos d" using d d0 by (intro cos_ge_zero) simp_all
  have "sin x = cos \<bar>pi / 2 - x\<bar>" by (simp add: sin_cos_eq)
  moreover have "cos d \<le> cos \<bar>pi / 2 - x\<bar>"
    using dev d pi_gt_zero by (intro cos_monotone_0_pi_le) simp_all
  ultimately show ?thesis using c0 by (simp add: power_mono)
qed

lemma arcsin_half: "arcsin (1 / 2) = pi / 6"
  using arcsin_sin [of "pi / 6"] pi_gt_zero by (simp add: sin_30)

section \<open>Success probability\<close>

text \<open>
  C4. For distinct bit-strings of one width, fewer than the \<open>2\<^sup>n\<close> basis states, the
  probability that the circuit the script assembles measures one of the marked states is
  \<open>sin\<^sup>2((2k + 1)\<theta>)\<close>, where \<open>sin \<theta> = \<surd>(m/2\<^sup>n)\<close> and \<open>k\<close> is the iteration
  count the script computed.
\<close>

theorem grover_search_success:
  assumes search: "grover_search mi = Inr (qc, k)"
    and bits: "\<forall>t \<in> set (marked_list mi). is_bitstring t \<and> length t = num_qubits qc"
    and dist: "distinct (marked_list mi)"
    and fewer: "length (marked_list mi) < 2 ^ num_qubits qc"
  shows "(\<Sum>b | length b = num_qubits qc \<and> label_of_basis b \<in> set (marked_list mi). probability qc b) =
         (sin ((2 * real (nat k) + 1) * grover_angle (2 ^ num_qubits qc) (length (marked_list mi))))\<^sup>2"
proof -
  let ?N = "2 ^ num_qubits qc :: nat" and ?m = "length (marked_list mi)"
  obtain orc where "grover_oracle mi = Inr orc" and "qc = projr (assemble_circuit (grover_operator orc) k)"
    and "num_qubits qc = num_qubits orc"
    using search by (rule grover_search_InrD)
  then have m: "0 < ?m" by (auto elim: grover_oracle_InrD)
  have s: "1 / sqrt 2 ^ num_qubits qc = 1 / sqrt (real ?N)"
    by (simp add: real_sqrt_power)
  have "0 < sqrt (real ?m)" using m by simp
  then show ?thesis
    using marked_probability_sum [OF search bits dist] grover_step2_funpow_angle [OF m, of ?N "nat k"] fewer
    by (simp add: s power_divide)
qed

theorem grover_search_success_witness:
  "\<exists>qc. grover_search script_marked_states = Inr (qc, 1) \<and>
     (\<Sum>b | length b = 3 \<and> label_of_basis b \<in> set [''011'', ''100'']. probability qc b) =
       (sin (3 * grover_angle 8 2))\<^sup>2 \<and>
     (sin (3 * grover_angle 8 2))\<^sup>2 = 1"
proof -
  obtain qc where search: "grover_search script_marked_states = Inr (qc, 1)" and w: "num_qubits qc = 3"
    by (rule script_search)
  have "(\<Sum>b | length b = num_qubits qc \<and> label_of_basis b \<in> set (marked_list script_marked_states).
           probability qc b) =
        (sin ((2 * real (nat 1) + 1) *
              grover_angle (2 ^ num_qubits qc) (length (marked_list script_marked_states))))\<^sup>2"
    using search script_marked_props w by (intro grover_search_success) (simp_all add: script_marked_states_def marked_list_def)
  moreover have a3: "3 * grover_angle 8 2 = pi / 2"
  proof -
    have "sqrt (real 2 / real 8) = sin (pi / 6)" by (simp add: sin_30 real_sqrt_divide)
    then show ?thesis by (simp add: grover_angle_def arcsin_sin)
  qed
  then have "sin (3 * grover_angle 8 2) = 1" by (simp only: a3 sin_pi_half)
  ultimately show ?thesis
    using search w by (simp add: script_marked_states_def marked_list_def numeral_2_eq_2 [symmetric])
qed

text \<open>
  C5. In the regime of the spec, at most a quarter of the basis states marked
  (\<open>4m \<le> 2\<^sup>n\<close>), the circuit the script assembles from a list of distinct bit-strings
  measures a marked state with probability at least \<open>(1 - 2m/2\<^sup>n)\<^sup>2\<close>: the count of
  lines 77--79 stops the rotation within \<open>2\<theta>\<close> of its optimum.
\<close>

theorem grover_search_success_bound:
  assumes search: "grover_search (MarkedList ms) = Inr (qc, k)"
    and bits: "\<forall>t \<in> set ms. is_bitstring t \<and> length t = num_qubits qc"
    and dist: "distinct ms"
    and regime: "4 * length ms \<le> 2 ^ num_qubits qc"
  shows "(1 - 2 * real (length ms) / 2 ^ num_qubits qc)\<^sup>2 \<le>
           (\<Sum>b | length b = num_qubits qc \<and> label_of_basis b \<in> set ms. probability qc b)"
proof -
  let ?N = "2 ^ num_qubits qc :: nat" and ?m = "length ms"
  let ?t = "grover_angle ?N ?m"
  obtain orc where built: "grover_oracle (MarkedList ms) = Inr orc"
    and cnt: "optimal_num_iterations (num_qubits orc) (py_len (MarkedList ms)) = Inr k"
    and w: "num_qubits qc = num_qubits orc"
    using search by (rule grover_search_InrD)
  have m: "0 < ?m" using built by (auto elim: grover_oracle_InrD simp: marked_list_def)
  have mN: "?m < ?N" using m regime by linarith
  have mN': "4 * real ?m \<le> real ?N" using regime by (simp only: of_nat_le_iff [symmetric])
  note sc = grover_angle_sin_cos [OF m mN]
  have k: "k = \<lfloor>pi / (4 * sin ?t)\<rfloor>"
  proof -
    have "sqrt (real ?N / real ?m) = 1 / sin ?t"
      using m by (simp add: sc real_sqrt_divide)
    then show ?thesis using cnt w m by (simp add: optimal_num_iterations_def py_len_def split: if_splits)
  qed
  have s0: "0 < sin ?t" using m mN by (simp add: sc)
  have k0: "0 \<le> k" using k s0 by simp
  have t0: "0 < ?t"
  proof -
    have "0 < sqrt (real ?m / real ?N)" and "sqrt (real ?m / real ?N) \<le> 1" using m mN by simp_all
    then show ?thesis
      using arcsin_less_arcsin [of 0 "sqrt (real ?m / real ?N)"] by (simp add: grover_angle_def)
  qed
  have t6: "?t \<le> pi / 6"
  proof -
    have "sqrt (real ?m / real ?N) \<le> sqrt (1 / 4)" using mN' m by (simp add: field_simps)
    then have "sqrt (real ?m / real ?N) \<le> 1 / 2" by (simp add: real_sqrt_divide)
    then show ?thesis
      unfolding grover_angle_def arcsin_half [symmetric]
      by (intro arcsin_le_arcsin) (simp_all add: order_trans [OF _ real_sqrt_ge_zero])
  qed
  have t1: "?t \<le> 2 / 3" using t6 pi_less_4 by simp
  have dev: "\<bar>(2 * real_of_int k + 1) * ?t - pi / 2\<bar> \<le> 2 * ?t"
    using t0 t1 k by (intro rounds_deviation) simp_all
  have "(cos (2 * ?t))\<^sup>2 \<le> (sin ((2 * real_of_int k + 1) * ?t))\<^sup>2"
    using dev t6 by (intro sin_sq_near_half_pi) simp_all
  moreover have "cos (2 * ?t) = 1 - 2 * real ?m / 2 ^ num_qubits qc"
    using m by (simp add: cos_double_sin sc power_divide)
  moreover have "(\<Sum>b | length b = num_qubits qc \<and> label_of_basis b \<in> set ms. probability qc b) =
                 (sin ((2 * real_of_int k + 1) * ?t))\<^sup>2"
  proof -
    have "0 < sqrt (real ?m)" using m by simp
    moreover have "real (nat k) = real_of_int k" using k0 by simp
    ultimately show ?thesis
      using marked_probability_sum [OF search, unfolded marked_list_def, simplified, OF bits dist]
        grover_step2_funpow_angle [OF m mN, of "nat k"]
      by (simp add: real_sqrt_power power_divide)
  qed
  ultimately show ?thesis by simp
qed

theorem grover_search_success_bound_witness:
  "\<exists>qc. grover_search script_marked_states = Inr (qc, 1) \<and>
     1 / 4 \<le> (\<Sum>b | length b = 3 \<and> label_of_basis b \<in> set [''011'', ''100'']. probability qc b)"
proof -
  obtain qc where search: "grover_search script_marked_states = Inr (qc, 1)" and w: "num_qubits qc = 3"
    by (rule script_search)
  have "(1 - 2 * real (length [''011'', ''100'']) / 2 ^ num_qubits qc)\<^sup>2 \<le>
          (\<Sum>b | length b = num_qubits qc \<and> label_of_basis b \<in> set [''011'', ''100'']. probability qc b)"
    using search w by (intro grover_search_success_bound) (simp_all add: script_marked_states_def is_bitstring_def)
  with search w show ?thesis by (auto simp: power2_eq_square)
qed

end
