(* ===== verification/Sampling.thy ===== *)
theory Sampling
  imports Search
begin

text \<open>
  How line 99 of \<open>src/main_2.py\<close> labels the sampled distribution. Qiskit Runtime's
  sampler returns a quasi-distribution keyed by the integer value of the measured classical
  bits (clbit \<open>i\<close>, here qubit \<open>i\<close>, has weight \<open>2\<^sup>i\<close>: \<open>nat_of_basis\<close>). Line 99 calls
  \<open>binary_probabilities()\<close> without \<open>num_bits\<close>, so each key \<open>k\<close> is printed as
  \<open>format(k, 'b').zfill(n)\<close> with \<open>n\<close> the bit length of the largest key present
  (\<open>QuasiDistribution._num_bits = len(bin(max(keys))) - 2\<close>), not the register width.
\<close>

section \<open>Definitions\<close>

text \<open>Integer value of a basis state, qubit 0 least significant, and back.\<close>

fun nat_of_basis :: "basis \<Rightarrow> nat" where
  "nat_of_basis [] = 0"
| "nat_of_basis (x # b) = of_bool x + 2 * nat_of_basis b"

fun basis_of_nat :: "nat \<Rightarrow> nat \<Rightarrow> basis" where
  "basis_of_nat 0 k = []"
| "basis_of_nat (Suc n) k = odd k # basis_of_nat n (k div 2)"

text \<open>Python's \<open>format(k, 'b')\<close> and \<open>str.zfill(width)\<close> on a string of digits.\<close>

fun py_bin :: "nat \<Rightarrow> string" where
  "py_bin k = (if k < 2 then [char_of_bit (odd k)] else py_bin (k div 2) @ [char_of_bit (odd k)])"

definition py_zfill :: "nat \<Rightarrow> string \<Rightarrow> string" where
  "py_zfill width s = replicate (width - length s) CHR ''0'' @ s"

text \<open>
  Line 99: \<open>sim_dist.binary_probabilities()\<close>. The number of digits is the bit length of
  the largest key (0 for an empty distribution); \<open>fold max\<close> computes \<open>max(keys)\<close>.
\<close>

definition quasi_num_bits :: "(nat \<times> real) list \<Rightarrow> nat" where
  "quasi_num_bits quasi =
     (if quasi = [] then 0 else length (py_bin (fold max (map fst quasi) 0)))"

definition binary_probabilities :: "(nat \<times> real) list \<Rightarrow> (string \<times> real) list" where
  "binary_probabilities quasi =
     (let n = quasi_num_bits quasi in map (\<lambda>(k, p). (py_zfill n (py_bin k), p)) quasi)"

declare py_bin.simps [simp del]

section \<open>Keys and labels\<close>

lemma length_basis_of_nat [simp]: "length (basis_of_nat n k) = n"
  by (induction n arbitrary: k) simp_all

lemma nat_of_basis_of_nat: "nat_of_basis (basis_of_nat n k) = k mod 2 ^ n"
proof (induction n arbitrary: k)
  case (Suc n)
  have "k mod 2 ^ Suc n = k mod 2 + 2 * (k div 2 mod 2 ^ n)"
    using mod_mult2_eq [of k 2 "2 ^ n"] by simp
  then show ?case using Suc.IH [of "k div 2"] by (simp add: odd_iff_mod_2_eq_one)
qed simp

lemma py_bin_small: "k < 2 \<Longrightarrow> py_bin k = [char_of_bit (odd k)]"
  and py_bin_large: "\<not> k < 2 \<Longrightarrow> py_bin k = py_bin (k div 2) @ [char_of_bit (odd k)]"
  by (simp_all add: py_bin.simps [of k])

lemma binary_probabilities_snd: "map snd (binary_probabilities d) = map snd d"
  by (simp add: binary_probabilities_def Let_def comp_def case_prod_beta)

end
