(* ===== verification/Shots.thy ===== *)
theory Shots
  imports Sampling "HOL-Library.Multiset"
begin

text \<open>
  Line 97 of \<open>src/main_2.py\<close>: \<open>sim_sampler.run(qc, shots=int(1e4))\<close> executes the circuit
  \<open>num_shots\<close> times and \<open>result().quasi_dists[0]\<close> maps each observed outcome key to its
  relative frequency (\<open>quasi_of_shots\<close>, keys in the order they are first observed). The
  shots are random, so their outcomes are an input of the model: the list of outcome keys
  the backend returns, one per shot. \<open>exact_outcomes\<close> is what an exact simulator
  guarantees of them: each is an outcome of the circuit of non-zero probability. The
  lemmas give the relative frequencies and, for the script's own circuit, the outcomes the
  shots can return and the dictionary line 99 then plots.
\<close>

section \<open>Definitions\<close>

definition num_shots :: nat where
  "num_shots = 10000"

definition quasi_of_shots :: "nat list \<Rightarrow> (nat \<times> real) list" where
  "quasi_of_shots outs =
     map (\<lambda>k. (k, real (count (mset outs) k) / real (length outs))) (remdups outs)"

definition exact_outcomes :: "qcircuit \<Rightarrow> nat list \<Rightarrow> bool" where
  "exact_outcomes qc outs \<longleftrightarrow>
     list_all (\<lambda>k. k < 2 ^ num_qubits qc \<and> probability qc (basis_of_nat (num_qubits qc) k) \<noteq> 0) outs"

section \<open>Relative frequencies\<close>

lemma sum_count_set: "(\<Sum>k \<in> set outs. count (mset outs) k) = length outs"
  using size_multiset_overloaded_eq [of "mset outs"] by simp

lemma sum_quasi_of_shots:
  assumes "outs \<noteq> []"
  shows "sum_list (map snd (quasi_of_shots outs)) = 1"
proof -
  have "sum_list (map snd (quasi_of_shots outs)) =
        (\<Sum>k \<in> set outs. real (count (mset outs) k) / real (length outs))"
    by (simp add: quasi_of_shots_def comp_def sum_code)
  also have "\<dots> = real (\<Sum>k \<in> set outs. count (mset outs) k) / real (length outs)"
    by (simp add: sum_divide_distrib [symmetric])
  also have "\<dots> = 1" using assms by (simp add: sum_count_set)
  finally show ?thesis .
qed

lemma exact_outcomesD:
  "exact_outcomes qc outs \<Longrightarrow> k \<in> set outs \<Longrightarrow>
     k < 2 ^ num_qubits qc \<and> probability qc (basis_of_nat (num_qubits qc) k) \<noteq> 0"
  by (simp add: exact_outcomes_def list_all_iff)

lemma remdups_replicate_pos: "0 < n \<Longrightarrow> remdups (replicate n x) = [x]"
proof (induction n)
  case (Suc n)
  then show ?case by (cases n) auto
qed simp

section \<open>The script's shots\<close>

text \<open>The script's circuit can only return the outcomes 3 (\<open>011\<close>) and 4 (\<open>100\<close>).\<close>

lemma script_outcomes:
  assumes search: "grover_search script_marked_states = Inr (qc, k)" and exact: "exact_outcomes qc outs"
  shows "set outs \<subseteq> {3, 4}"
proof
  fix j assume j: "j \<in> set outs"
  obtain qc' where search': "grover_search script_marked_states = Inr (qc', 1)" and w: "num_qubits qc' = 3"
    by (rule script_search)
  have qc: "qc = qc'" using search search' by simp
  have jb: "j < 8" and p: "probability qc (basis_of_nat 3 j) \<noteq> 0"
    using exact_outcomesD [OF exact j] w qc by simp_all
  have "label_of_basis (basis_of_nat 3 j) \<in> {''011'', ''100''}"
    using p script_probability [OF search' w, of "basis_of_nat 3 j"] qc by (simp split: if_splits)
  moreover have "j = nat_of_basis (basis_of_string (label_of_basis (basis_of_nat 3 j)))"
    using jb by (simp add: nat_of_basis_of_nat)
  ultimately show "j \<in> {3, 4}"
    by (auto simp: basis_of_string_def)
qed

lemma fold_max_34:
  assumes "set outs \<subseteq> {3, 4}" and "outs \<noteq> []"
  shows "fold max (remdups outs) 0 = (if 4 \<in> set outs then 4 else (3::nat))"
proof -
  have "fold max (remdups outs) 0 = Max (set (0 # remdups outs))"
    by (rule Max.set_eq_fold [symmetric])
  also have "\<dots> = Max (insert 0 (set outs))" by simp
  also have "\<dots> = (if 4 \<in> set outs then 4 else 3)"
  proof (cases "4 \<in> set outs")
    case True
    then show ?thesis using assms(1) by (intro Max_eqI) auto
  next
    case False
    then have "set outs = {3}" using assms by (cases outs) auto
    then show ?thesis by simp
  qed
  finally show ?thesis .
qed

text \<open>
  What line 99 plots for shots on 3 and 4: with an outcome 4 among them the keys have three
  digits; with only outcome 3 the largest key is 3 and the plot has the single key \<open>11\<close>.
\<close>

lemma binary_probabilities_34:
  assumes sub: "set outs \<subseteq> {3, 4}" and ne: "outs \<noteq> []"
  shows "binary_probabilities (quasi_of_shots outs) =
           (if 4 \<in> set outs
            then map (\<lambda>(k, p). (if k = 3 then ''011'' else ''100'', p)) (quasi_of_shots outs)
            else [(''11'', 1)])"
proof -
  have keys: "map fst (quasi_of_shots outs) = remdups outs"
    by (simp add: quasi_of_shots_def comp_def)
  have nb: "quasi_num_bits (quasi_of_shots outs) = (if 4 \<in> set outs then 3 else 2)"
    using fold_max_34 [OF sub ne] ne
    by (simp add: quasi_num_bits_def keys py_bin_large py_bin_small char_of_bit_def)
       (simp add: quasi_of_shots_def)
  show ?thesis
  proof (cases "4 \<in> set outs")
    case True
    have "py_zfill 3 (py_bin k) = (if k = 3 then ''011'' else ''100'')" if "k \<in> set outs" for k
      using that sub by (auto simp: py_zfill_def py_bin_large py_bin_small char_of_bit_def)
    then show ?thesis
      using True nb by (auto simp: binary_probabilities_def quasi_of_shots_def)
  next
    case False
    then have "set outs = {3}" using sub ne by (cases outs) auto
    then have outs: "outs = replicate (length outs) 3"
      by (simp add: replicate_length_same)
    have r: "remdups outs = [3]"
      using ne by (subst outs) (simp add: remdups_replicate_pos)
    have c: "count (mset outs) 3 = length outs"
      by (subst (1) outs) simp
    have "quasi_of_shots outs = [(3, 1)]"
      using ne by (simp add: quasi_of_shots_def r c)
    then show ?thesis
      using False nb by (simp add: binary_probabilities_def py_zfill_def py_bin_large py_bin_small char_of_bit_def)
  qed
qed

end
