(* ===== verification/Classical.thy ===== *)
theory Classical
  imports Prelude
begin

text \<open>
  The classical toy of \<open>src/main_2.py\<close>, lines 5--22: a random permutation of
  \<open>0..9\<close> is printed, then searched from the left with \<open>the_oracle\<close>, which recognises
  7; at the first hit the script prints the index and the number of oracle calls and
  leaves the loop. The random sample is an input of the model, described by the predicate
  \<open>sample_outcome\<close> (every permutation of \<open>0..9\<close> can come out). Printed lines are
  events of the datatype \<open>printed\<close>; their string formatting is not modelled. The lemmas
  show what the loop prints and how many oracle calls it makes, on every list, and that
  on every possible sample it finds the winner within ten calls.
\<close>

section \<open>Definitions\<close>

text \<open>Line 5: the possible results of \<open>rand.sample(range(0, 10), 10)\<close>.\<close>

definition sample_outcome :: "int list \<Rightarrow> bool" where
  "sample_outcome my_list \<longleftrightarrow> distinct my_list \<and> set my_list = set [0..9]"

text \<open>Lines 10--15.\<close>

definition the_oracle :: "int \<Rightarrow> bool" where
  "the_oracle input = (let winner = 7 in if input = winner then True else False)"

text \<open>The lines the script prints: line 6, line 20 and line 21.\<close>

datatype printed = PrintList "int list" | WinnerFoundAt nat | CallsUsed nat

text \<open>
  Lines 18--22: \<open>for index, trial_number in enumerate(my_list)\<close>. Each iteration calls
  the oracle once; a hit prints two lines and breaks. The result is the printed lines and
  the number of oracle calls made.
\<close>

fun search_loop :: "nat \<Rightarrow> int list \<Rightarrow> printed list \<times> nat" where
  "search_loop index [] = ([], 0)"
| "search_loop index (trial_number # rest) =
     (if the_oracle trial_number = True
      then ([WinnerFoundAt index, CallsUsed (index + 1)], 1)
      else (let (out, calls) = search_loop (index + 1) rest in (out, calls + 1)))"

text \<open>Lines 5--22 after the sample is drawn: print the list, then search it.\<close>

definition classical_part :: "int list \<Rightarrow> printed list \<times> nat" where
  "classical_part my_list =
     (let (out, calls) = search_loop 0 my_list in (PrintList my_list # out, calls))"

section \<open>Lemmas\<close>

lemma the_oracle_iff [simp]: "the_oracle x \<longleftrightarrow> x = 7"
  by (simp add: the_oracle_def)

text \<open>The loop from any start index: \<open>i\<close> is the position of the first 7.\<close>

lemma search_loop_eq:
  "search_loop index xs =
     (let i = length (takeWhile (\<lambda>x. x \<noteq> 7) xs)
      in if 7 \<in> set xs then ([WinnerFoundAt (index + i), CallsUsed (index + i + 1)], i + 1)
         else ([], length xs))"
  by (induction index xs rule: search_loop.induct) (auto simp: Let_def split: prod.splits)

section \<open>Properties\<close>

text \<open>
  C19. On any list, the classical part prints the list and, if 7 occurs, the index of its
  first occurrence \<open>i\<close> and the call count \<open>i + 1\<close>, which is exactly the number of
  oracle calls made; if 7 does not occur, it prints nothing more after calling the oracle
  once per element.
\<close>

theorem classical_part_correct:
  "classical_part xs =
     (let i = length (takeWhile (\<lambda>x. x \<noteq> 7) xs)
      in if 7 \<in> set xs then ([PrintList xs, WinnerFoundAt i, CallsUsed (i + 1)], i + 1)
         else ([PrintList xs], length xs))"
  by (simp add: classical_part_def search_loop_eq Let_def)

text \<open>
  C20. On every possible random sample the winner is found: the script prints an index
  \<open>i < 10\<close> holding 7 and reports \<open>i + 1 \<le> 10\<close> oracle calls, the number it made.
\<close>

theorem classical_part_sample:
  assumes "sample_outcome xs"
  shows "\<exists>i < 10. xs ! i = 7 \<and>
           classical_part xs = ([PrintList xs, WinnerFoundAt i, CallsUsed (i + 1)], i + 1)"
proof -
  let ?i = "length (takeWhile (\<lambda>x. x \<noteq> 7) xs)"
  have len: "length xs = 10"
    using assms distinct_card [of xs] by (simp add: sample_outcome_def)
  have mem: "7 \<in> set xs"
    using assms by (simp add: sample_outcome_def)
  then have "?i < length xs"
    by (rule length_takeWhile_less_mem) simp
  moreover have "xs ! ?i = 7"
    using nth_length_takeWhile [of "\<lambda>x. x \<noteq> 7" xs] calculation by simp
  ultimately show ?thesis
    using mem len by (auto simp: classical_part_def search_loop_eq Let_def)
qed

theorem classical_part_sample_witness:
  "classical_part [3, 0, 7, 1, 9, 2, 8, 4, 6, 5] =
     ([PrintList [3, 0, 7, 1, 9, 2, 8, 4, 6, 5], WinnerFoundAt 2, CallsUsed 3], 3)"
proof -
  have s: "sample_outcome [3, 0, 7, 1, 9, 2, 8, 4, 6, 5]"
    by (simp add: sample_outcome_def upto.simps insert_commute)
  obtain i where "i < 10" and i: "[3, 0, 7, 1, 9, 2, 8, 4, 6, 5] ! i = (7::int)"
    and c: "classical_part [3, 0, 7, 1, 9, 2, 8, 4, 6, 5] =
              ([PrintList [3, 0, 7, 1, 9, 2, 8, 4, 6, 5], WinnerFoundAt i, CallsUsed (i + 1)], i + 1)"
    using classical_part_sample [OF s] by blast
  have "i = 2"
    using \<open>i < 10\<close> i by (simp add: less_Suc_eq numeral_eq_Suc nth_Cons' split: if_splits)
  with c show ?thesis by simp
qed

end
