(* ===== verification/Script.thy ===== *)
theory Script
  imports Shots Classical "HOL-Library.While_Combinator"
begin

text \<open>
  The whole script \<open>src/main_2.py\<close> as a state machine, one transition per executed
  statement. The record \<open>prog_state\<close> holds the script's globals (\<open>my_list\<close>, the
  loop variables of line 18, \<open>service\<close>, \<open>marked_states\<close>, \<open>oracle\<close>, \<open>grover_op\<close>,
  \<open>optimal_num_iterations\<close>, \<open>qc\<close>, \<open>backend_simulator\<close>, \<open>sim_session\<close>,
  \<open>sim_sampler\<close>, \<open>sim_dist\<close>), the program counter \<open>pc\<close> (the line about to run,
  \<open>Done\<close>, or the exception raised) and the trace \<open>out\<close> of what is printed, drawn and
  plotted. What the environment decides is an input of the run: \<open>sample_in\<close>, the
  permutation \<open>rand.sample\<close> returns at line 5; \<open>backend_in\<close>, the name of the simulator
  \<open>service.least_busy\<close> returns at line 90; \<open>fail_in\<close>, the call to the IBM runtime that
  fails, if any (the service of line 36, which needs the credentials line 35 asks for,
  \<open>least_busy\<close> at line 90, \<open>Session\<close> and \<open>Sampler\<close> at lines 94 and 95, the job at
  line 97); and \<open>shots_in\<close>, the outcome keys of the shots of line 97. The runtime objects
  are flags (\<open>sim_session\<close> is true while a session exists that has not been closed).
  \<open>prog_step\<close> is one transition and \<open>prog_run\<close> iterates it with \<open>while_option\<close>
  until a final line. The lemmas compute the run: the classical part, then the pipeline of
  \<open>grover_search\<close>, the runtime calls and the plot; the properties are the exceptions the
  script ends with, the session it leaves open, and what line 99 plots.
\<close>

section \<open>Definitions\<close>

datatype line =
  L5 | L6 | L18 | Loop_head | L19 | L20 | L21 | L22 | L36 | L69 | L71 | L72 | L74 | L75 | L77
| L80 | L82 | L84 | L86 | L87 | L90 | L91 | L94 | L95 | L97 | L99 | L100 | L102
| Done | Raised py_error

datatype event =
  Out printed | Draw qcircuit | Print_name string
| Plot "(string \<times> real) list" | Show

record prog_state =
  pc :: line
  sample_in :: "int list"
  backend_in :: string
  fail_in :: "line option"
  shots_in :: "nat list"
  my_list :: "int list"
  enum_rest :: "int list"
  enum_count :: nat
  loop_index :: nat
  trial_number :: int
  service :: bool
  marked_states :: "marked_input option"
  oracle_v :: "qcircuit option"
  grover_op :: "qcircuit option"
  optimal_num_iterations_v :: "int option"
  qc_v :: "qcircuit option"
  backend_simulator :: "string option"
  sim_session :: bool
  sim_sampler :: bool
  sim_dist :: "(nat \<times> real) list option"
  out :: "event list"

definition init_state :: "int list \<Rightarrow> string \<Rightarrow> line option \<Rightarrow> nat list \<Rightarrow> prog_state" where
  "init_state sample name fail outs =
     \<lparr>pc = L5, sample_in = sample, backend_in = name, fail_in = fail, shots_in = outs,
      my_list = [], enum_rest = [],
      enum_count = 0, loop_index = 0, trial_number = 0, service = False, marked_states = None,
      oracle_v = None, grover_op = None, optimal_num_iterations_v = None, qc_v = None,
      backend_simulator = None, sim_session = False, sim_sampler = False, sim_dist = None,
      out = []\<rparr>"

definition emit :: "event \<Rightarrow> line \<Rightarrow> prog_state \<Rightarrow> prog_state" where
  "emit e l s = s\<lparr>out := out s @ [e], pc := l\<rparr>"

text \<open>A call to the IBM runtime at line \<open>l\<close>: it raises if the environment says so.\<close>

definition runtime_call :: "line \<Rightarrow> prog_state \<Rightarrow> prog_state \<Rightarrow> prog_state" where
  "runtime_call l s s' = (if fail_in s = Some l then s\<lparr>pc := Raised IBMRuntimeError\<rparr> else s')"

definition prog_step :: "marked_input \<Rightarrow> prog_state \<Rightarrow> prog_state" where
  "prog_step ms s = (case pc s of
     L5 \<Rightarrow> s\<lparr>my_list := sample_in s, pc := L6\<rparr>
   | L6 \<Rightarrow> emit (Out (PrintList (my_list s))) L18 s
   | L18 \<Rightarrow> s\<lparr>enum_rest := my_list s, enum_count := 0, pc := Loop_head\<rparr>
   | Loop_head \<Rightarrow> (case enum_rest s of
         [] \<Rightarrow> s\<lparr>pc := L36\<rparr>
       | x # xs \<Rightarrow> s\<lparr>loop_index := enum_count s, trial_number := x, enum_rest := xs,
                    enum_count := Suc (enum_count s), pc := L19\<rparr>)
   | L19 \<Rightarrow> (if the_oracle (trial_number s) = True then s\<lparr>pc := L20\<rparr> else s\<lparr>pc := Loop_head\<rparr>)
   | L20 \<Rightarrow> emit (Out (WinnerFoundAt (loop_index s))) L21 s
   | L21 \<Rightarrow> emit (Out (CallsUsed (loop_index s + 1))) L22 s
   | L22 \<Rightarrow> s\<lparr>pc := L36\<rparr>
   | L36 \<Rightarrow> runtime_call L36 s (s\<lparr>service := True, pc := L69\<rparr>)
   | L69 \<Rightarrow> s\<lparr>marked_states := Some ms, pc := L71\<rparr>
   | L71 \<Rightarrow> (case grover_oracle (the (marked_states s)) of
         Inl e \<Rightarrow> s\<lparr>pc := Raised e\<rparr>
       | Inr c \<Rightarrow> s\<lparr>oracle_v := Some c, pc := L72\<rparr>)
   | L72 \<Rightarrow> emit (Draw (the (oracle_v s))) L74 s
   | L74 \<Rightarrow> s\<lparr>grover_op := Some (grover_operator (the (oracle_v s))), pc := L75\<rparr>
   | L75 \<Rightarrow> emit (Draw (qc_decompose (the (grover_op s)))) L77 s
   | L77 \<Rightarrow> (case optimal_num_iterations (num_qubits (the (grover_op s)))
                                        (py_len (the (marked_states s))) of
         Inl e \<Rightarrow> s\<lparr>pc := Raised e\<rparr>
       | Inr k \<Rightarrow> s\<lparr>optimal_num_iterations_v := Some k, pc := L80\<rparr>)
   | L80 \<Rightarrow> s\<lparr>qc_v := Some (empty_circuit (num_qubits (the (grover_op s)))), pc := L82\<rparr>
   | L82 \<Rightarrow> (case qc_h [0..<num_qubits (the (grover_op s))] (the (qc_v s)) of
         Inl e \<Rightarrow> s\<lparr>pc := Raised e\<rparr>
       | Inr c \<Rightarrow> s\<lparr>qc_v := Some c, pc := L84\<rparr>)
   | L84 \<Rightarrow> (case qc_compose (the (qc_v s))
                  (qc_power (the (grover_op s)) (nat (the (optimal_num_iterations_v s)))) of
         Inl e \<Rightarrow> s\<lparr>pc := Raised e\<rparr>
       | Inr c \<Rightarrow> s\<lparr>qc_v := Some c, pc := L86\<rparr>)
   | L86 \<Rightarrow> s\<lparr>qc_v := Some (qc_measure_all (the (qc_v s))), pc := L87\<rparr>
   | L87 \<Rightarrow> emit (Draw (the (qc_v s))) L90 s
   | L90 \<Rightarrow> runtime_call L90 s (s\<lparr>backend_simulator := Some (backend_in s), pc := L91\<rparr>)
   | L91 \<Rightarrow> emit (Print_name (the (backend_simulator s))) L94 s
   | L94 \<Rightarrow> runtime_call L94 s (s\<lparr>sim_session := True, pc := L95\<rparr>)
   | L95 \<Rightarrow> runtime_call L95 s (s\<lparr>sim_sampler := True, pc := L97\<rparr>)
   | L97 \<Rightarrow> runtime_call L97 s (s\<lparr>sim_dist := Some (quasi_of_shots (shots_in s)), pc := L99\<rparr>)
   | L99 \<Rightarrow> emit (Plot (binary_probabilities (the (sim_dist s)))) L100 s
   | L100 \<Rightarrow> emit Show L102 s
   | L102 \<Rightarrow> s\<lparr>sim_session := False, pc := Done\<rparr>
   | Done \<Rightarrow> s
   | Raised e \<Rightarrow> s)"

fun is_final :: "line \<Rightarrow> bool" where
  "is_final Done = True"
| "is_final (Raised e) = True"
| "is_final l = False"

definition prog_run :: "marked_input \<Rightarrow> prog_state \<Rightarrow> prog_state option" where
  "prog_run ms s = while_option (\<lambda>s. \<not> is_final (pc s)) (prog_step ms) s"

section \<open>Running the machine\<close>

lemma prog_run_step:
  "\<not> is_final (pc s) \<Longrightarrow> prog_run ms s = prog_run ms (prog_step ms s)"
  unfolding prog_run_def by (subst while_option_unfold) simp

lemma prog_run_final: "is_final (pc s) \<Longrightarrow> prog_run ms s = Some s"
  unfolding prog_run_def by (subst while_option_unfold) simp

lemma prog_run_funpow:
  "(\<forall>i < n. \<not> is_final (pc ((prog_step ms ^^ i) s))) \<Longrightarrow>
     prog_run ms s = prog_run ms ((prog_step ms ^^ n) s)"
proof (induction n arbitrary: s)
  case (Suc n)
  have "\<forall>i < n. \<not> is_final (pc ((prog_step ms ^^ i) (prog_step ms s)))"
  proof (intro allI impI)
    fix i assume "i < n"
    then have "\<not> is_final (pc ((prog_step ms ^^ Suc i) s))" using Suc.prems by blast
    then show "\<not> is_final (pc ((prog_step ms ^^ i) (prog_step ms s)))"
      by (simp add: funpow_Suc_right del: funpow.simps)
  qed
  then have "prog_run ms (prog_step ms s) = prog_run ms ((prog_step ms ^^ n) (prog_step ms s))"
    by (rule Suc.IH)
  moreover have "prog_run ms s = prog_run ms (prog_step ms s)"
    using Suc.prems by (intro prog_run_step) (metis funpow_0 zero_less_Suc)
  ultimately show ?case by (simp add: funpow_Suc_right del: funpow.simps)
qed simp

section \<open>The classical part\<close>

lemma prog_run_loop:
  assumes "pc s = Loop_head"
  shows "\<exists>a b c d. prog_run ms s =
           prog_run ms (s\<lparr>loop_index := a, trial_number := b, enum_rest := c, enum_count := d,
             out := out s @ map Out (fst (search_loop (enum_count s) (enum_rest s))), pc := L36\<rparr>)"
  using assms
proof (induction "enum_rest s" arbitrary: s)
  case Nil
  have "prog_run ms s = prog_run ms ((prog_step ms ^^ 1) s)"
    using Nil.prems by (intro prog_run_funpow) simp
  also have "(prog_step ms ^^ 1) s = s\<lparr>pc := L36\<rparr>"
    using Nil by (simp add: prog_step_def split: list.splits)
  finally have run: "prog_run ms s = prog_run ms (s\<lparr>pc := L36\<rparr>)" .
  have eq: "s\<lparr>loop_index := loop_index s, trial_number := trial_number s,
      enum_rest := enum_rest s, enum_count := enum_count s,
      out := out s @ map Out (fst (search_loop (enum_count s) (enum_rest s))), pc := L36\<rparr>
    = s\<lparr>pc := L36\<rparr>"
    using Nil.hyps [symmetric] by simp
  show ?case by (rule exI)+ (subst eq, rule run)
next
  case (Cons x xs)
  show ?case
  proof (cases "x = 7")
    case True
    let ?t = "s\<lparr>loop_index := enum_count s, trial_number := x, enum_rest := xs,
                enum_count := Suc (enum_count s),
                out := out s @ [Out (WinnerFoundAt (enum_count s)), Out (CallsUsed (enum_count s + 1))],
                pc := L36\<rparr>"
    have "prog_run ms s = prog_run ms ((prog_step ms ^^ 5) s)"
      using Cons.prems Cons.hyps(2) [symmetric] True
      by (intro prog_run_funpow) (simp add: prog_step_def emit_def numeral_eq_Suc All_less_Suc)
    also have "(prog_step ms ^^ 5) s = ?t"
      using Cons.prems Cons.hyps(2) [symmetric] True
      by (simp add: prog_step_def emit_def numeral_eq_Suc)
    finally have run: "prog_run ms s = prog_run ms ?t" .
    show ?thesis
      by (rule exI [of _ "enum_count s"], rule exI [of _ x], rule exI [of _ xs],
          rule exI [of _ "Suc (enum_count s)"])
         (simp add: run Cons.hyps(2) [symmetric] True)
  next
    case False
    let ?s' = "s\<lparr>loop_index := enum_count s, trial_number := x, enum_rest := xs,
                 enum_count := Suc (enum_count s), pc := Loop_head\<rparr>"
    have "prog_run ms s = prog_run ms ((prog_step ms ^^ 2) s)"
      using Cons.prems Cons.hyps(2) [symmetric] False
      by (intro prog_run_funpow) (simp add: prog_step_def numeral_eq_Suc All_less_Suc)
    also have "(prog_step ms ^^ 2) s = ?s'"
      using Cons.prems Cons.hyps(2) [symmetric] False by (simp add: prog_step_def numeral_eq_Suc)
    finally have run: "prog_run ms s = prog_run ms ?s'" .
    obtain a b c d where IH: "prog_run ms ?s' =
        prog_run ms (?s'\<lparr>loop_index := a, trial_number := b, enum_rest := c, enum_count := d,
          out := out ?s' @ map Out (fst (search_loop (enum_count ?s') (enum_rest ?s'))), pc := L36\<rparr>)"
      using Cons.hyps(1) [of ?s'] by auto
    show ?thesis
      by (rule exI [of _ a], rule exI [of _ b], rule exI [of _ c], rule exI [of _ d])
         (simp add: run IH Cons.hyps(2) [symmetric] False split: prod.splits)
  qed
qed

lemma prog_run_classical:
  "\<exists>s. pc s = L36 \<and> backend_in s = name \<and> \<not> sim_session s \<and>
       out s = map Out (fst (classical_part sample)) \<and>
       fail_in s = fail \<and> shots_in s = outs \<and>
       prog_run ms (init_state sample name fail outs) = prog_run ms s"
proof -
  let ?s = "(init_state sample name fail outs)\<lparr>my_list := sample, out := [Out (PrintList sample)],
              enum_rest := sample, enum_count := 0, pc := Loop_head\<rparr>"
  have "prog_run ms (init_state sample name fail outs) = prog_run ms ((prog_step ms ^^ 3) (init_state sample name fail outs))"
    by (intro prog_run_funpow) (simp add: prog_step_def emit_def init_state_def numeral_eq_Suc All_less_Suc)
  also have "(prog_step ms ^^ 3) (init_state sample name fail outs) = ?s"
    by (simp add: prog_step_def emit_def init_state_def numeral_eq_Suc)
  finally have run: "prog_run ms (init_state sample name fail outs) = prog_run ms ?s" .
  obtain a b c d where loop: "prog_run ms ?s = prog_run ms (?s\<lparr>loop_index := a, trial_number := b,
      enum_rest := c, enum_count := d,
      out := out ?s @ map Out (fst (search_loop (enum_count ?s) (enum_rest ?s))), pc := L36\<rparr>)"
    using prog_run_loop [of ?s ms] by auto
  show ?thesis
    by (rule exI, rule conjI [OF _ conjI [OF _ conjI [OF _ conjI [OF _ conjI [OF _ conjI [OF _ trans [OF run loop]]]]]]])
       (simp_all add: init_state_def classical_part_def split: prod.splits)
qed

section \<open>The pipeline and the runtime calls\<close>

lemma grover_oracle_search:
  assumes "grover_oracle ms = Inr orc" and "\<not> py_div_overflows (2 ^ num_qubits orc) (py_len ms)"
  shows "grover_search ms =
    Inr (projr (assemble_circuit (grover_operator orc) \<lfloor>pi / 4 * sqrt (2 ^ num_qubits orc / real (py_len ms))\<rfloor>),
         \<lfloor>pi / 4 * sqrt (2 ^ num_qubits orc / real (py_len ms))\<rfloor>)"
  using assms py_len_pos [OF assms(1)]
  by (intro grover_search_Inr [OF assms(1)]) (simp add: optimal_num_iterations_def)

lemma grover_oracle_overflow:
  assumes "grover_oracle ms = Inr orc" and "py_div_overflows (2 ^ num_qubits orc) (py_len ms)"
  shows "grover_search ms = Inl OverflowError"
  using assms py_len_pos [OF assms(1)]
  by (simp add: grover_search_def optimal_num_iterations_def grover_operator_def Let_def)

lemmas run_simps = prog_run_step prog_step_def prog_run_final emit_def runtime_call_def

text \<open>
  From line 36 on: the script ends at the first runtime call that fails or at the
  exception of the pipeline, whichever comes first; only a failure after line 94 opened the
  session leaves it open; a normal run ends by plotting the shots' frequencies.
\<close>

lemma prog_run_quantum:
  assumes pc: "pc s = L36" and ns: "\<not> sim_session s"
  shows "\<exists>t. prog_run ms s = Some t \<and>
     pc t = (if fail_in s = Some L36 then Raised IBMRuntimeError
             else case grover_search ms of
                    Inl e \<Rightarrow> Raised e
                  | Inr r \<Rightarrow> if fail_in s \<in> {Some L90, Some L94, Some L95, Some L97}
                            then Raised IBMRuntimeError else Done) \<and>
     (sim_session t \<longleftrightarrow> fail_in s \<in> {Some L95, Some L97} \<and> (\<exists>r. grover_search ms = Inr r)) \<and>
     (pc t = Done \<longrightarrow> (\<exists>pre. out t = out s @ pre @
        [Plot (binary_probabilities (quasi_of_shots (shots_in s))), Show]))"
proof (cases "fail_in s = Some L36")
  case True
  then show ?thesis using pc ns by (simp add: run_simps)
next
  case f36: False
  show ?thesis
  proof (cases "grover_oracle ms")
    case (Inl e)
    then have "grover_search ms = Inl e" by (simp add: grover_search_def)
    then show ?thesis using Inl pc ns f36 by (simp add: run_simps)
  next
    case (Inr orc)
    show ?thesis
    proof (cases "py_div_overflows (2 ^ num_qubits orc) (py_len ms)")
      case True
      then show ?thesis
        using Inr pc ns f36 py_len_pos [OF Inr] grover_oracle_overflow [OF Inr True]
        by (simp add: run_simps optimal_num_iterations_def grover_operator_def Let_def)
    next
      case False
      note search = grover_oracle_search [OF Inr False]
      consider "fail_in s = Some L90" | "fail_in s = Some L94" | "fail_in s = Some L95"
        | "fail_in s = Some L97" | "fail_in s \<notin> {Some L36, Some L90, Some L94, Some L95, Some L97}"
        using f36 by blast
      then show ?thesis
        by cases (use Inr False pc ns f36 py_len_pos [OF Inr] search in
          \<open>simp_all add: run_simps optimal_num_iterations_def assemble_circuit_def append_1q_def
             qc_compose_def qc_power_def qc_measure_all_def empty_circuit_def list_all_iff
             grover_operator_def Let_def\<close>)
    qed
  qed
qed

lemma prog_run_script:
  "\<exists>t. prog_run ms (init_state sample name fail outs) = Some t \<and>
     pc t = (if fail = Some L36 then Raised IBMRuntimeError
             else case grover_search ms of
                    Inl e \<Rightarrow> Raised e
                  | Inr r \<Rightarrow> if fail \<in> {Some L90, Some L94, Some L95, Some L97}
                            then Raised IBMRuntimeError else Done) \<and>
     (sim_session t \<longleftrightarrow> fail \<in> {Some L95, Some L97} \<and> (\<exists>r. grover_search ms = Inr r)) \<and>
     (pc t = Done \<longrightarrow> (\<exists>pre. out t = pre @ [Plot (binary_probabilities (quasi_of_shots outs)), Show]))"
proof -
  obtain s where s: "pc s = L36" "\<not> sim_session s" "fail_in s = fail" "shots_in s = outs"
    and run: "prog_run ms (init_state sample name fail outs) = prog_run ms s"
    using prog_run_classical by blast
  show ?thesis
    using prog_run_quantum [OF s(1,2), of ms] s(3,4) unfolding run by auto
qed

section \<open>Properties of the script\<close>

text \<open>
  C7. How the script ends, for every sample, backend, failing runtime call and shot
  outcome: with \<open>IBMRuntimeError\<close> if creating the service at line 36 fails (before any
  circuit is built); otherwise with the exception the pipeline \<open>grover_search\<close> of lines
  69--86 raises; otherwise with \<open>IBMRuntimeError\<close> if one of the runtime calls of lines
  90, 94, 95 and 97 fails; otherwise normally.
\<close>

theorem script_exceptions:
  "\<exists>t. prog_run ms (init_state sample name fail outs) = Some t \<and>
     pc t = (if fail = Some L36 then Raised IBMRuntimeError
             else case grover_search ms of
                    Inl e \<Rightarrow> Raised e
                  | Inr r \<Rightarrow> if fail \<in> {Some L90, Some L94, Some L95, Some L97}
                            then Raised IBMRuntimeError else Done)"
  using prog_run_script [of ms sample name fail outs] by blast

text \<open>
  C8. The session of line 94 is closed only on the normal path: the script ends with an
  open session exactly when the pipeline succeeds and the runtime then fails at line 95
  (\<open>Sampler\<close>) or line 97 (the job), since \<open>sim_session.close()\<close> at line 102 is not in a
  \<open>finally\<close> block or a \<open>with\<close> statement.
\<close>

theorem script_session_leak:
  "\<exists>t. prog_run ms (init_state sample name fail outs) = Some t \<and>
     (sim_session t \<longleftrightarrow> fail \<in> {Some L95, Some L97} \<and> (\<exists>r. grover_search ms = Inr r))"
  using prog_run_script [of ms sample name fail outs] by blast

text \<open>
  C9. The plot of the script as written (\<open>["011", "100"]\<close>), when no runtime call fails
  and the \<open>int(1e4)\<close> shots return outcomes the circuit can produce: the run ends normally
  and plots a dictionary whose values sum to 1; if some shot gave \<open>100\<close> its keys are
  among \<open>011\<close> and \<open>100\<close>, but if every shot gave \<open>011\<close> the plot is \<open>{'11': 1.0}\<close>,
  since \<open>binary_probabilities()\<close> pads keys to the largest key present, not to the
  register width.
\<close>

theorem script_plot:
  assumes search: "grover_search script_marked_states = Inr (qc, k)"
    and len: "length outs = num_shots" and exact: "exact_outcomes qc outs"
  shows "\<exists>t P. prog_run script_marked_states (init_state sample name None outs) = Some t \<and>
           pc t = Done \<and> Plot P \<in> set (out t) \<and> sum_list (map snd P) = 1 \<and>
           (4 \<in> set outs \<longrightarrow> set (map fst P) \<subseteq> {''011'', ''100''}) \<and>
           (4 \<notin> set outs \<longrightarrow> P = [(''11'', 1)])"
proof -
  have ne: "outs \<noteq> []" using len by (auto simp: num_shots_def)
  have sub: "set outs \<subseteq> {3, 4}" using search exact by (rule script_outcomes)
  obtain t where run: "prog_run script_marked_states (init_state sample name None outs) = Some t"
    and pct: "pc t = (if (None :: line option) = Some L36 then Raised IBMRuntimeError
             else case grover_search script_marked_states of
                    Inl e \<Rightarrow> Raised e
                  | Inr r \<Rightarrow> if (None :: line option) \<in> {Some L90, Some L94, Some L95, Some L97}
                            then Raised IBMRuntimeError else Done)"
    and plot: "pc t = Done \<longrightarrow>
      (\<exists>pre. out t = pre @ [Plot (binary_probabilities (quasi_of_shots outs)), Show])"
    using prog_run_script [of script_marked_states sample name None outs] by blast
  have fin: "pc t = Done" using pct search by simp
  then obtain pre where o: "out t = pre @ [Plot (binary_probabilities (quasi_of_shots outs)), Show]"
    using plot by blast
  have sum: "sum_list (map snd (binary_probabilities (quasi_of_shots outs))) = 1"
    using ne by (simp add: binary_probabilities_snd sum_quasi_of_shots)
  have keys: "4 \<in> set outs \<longrightarrow> set (map fst (binary_probabilities (quasi_of_shots outs))) \<subseteq> {''011'', ''100''}"
    using binary_probabilities_34 [OF sub ne] by auto
  have only3: "4 \<notin> set outs \<longrightarrow> binary_probabilities (quasi_of_shots outs) = [(''11'', 1)]"
    using binary_probabilities_34 [OF sub ne] by simp
  show ?thesis
    using run fin o sum keys only3 by auto
qed

theorem script_plot_witness:
  "\<exists>qc t. grover_search script_marked_states = Inr (qc, 1) \<and>
     prog_run script_marked_states (init_state [7] ''sim'' None (replicate 10000 3)) = Some t \<and>
     pc t = Done \<and> Plot [(''11'', 1)] \<in> set (out t)"
proof -
  obtain qc where search: "grover_search script_marked_states = Inr (qc, 1)" and w: "num_qubits qc = 3"
    by (rule script_search)
  have p: "probability qc (basis_of_nat 3 3) = 1 / 2"
    using script_probability [OF search w, of "basis_of_nat 3 3"]
    by (simp add: numeral_3_eq_3 label_of_basis_def char_of_bit_def)
  have len: "length (replicate 10000 (3::nat)) = num_shots" by (simp add: num_shots_def)
  have exact: "exact_outcomes qc (replicate 10000 3)"
    using w p by (simp add: exact_outcomes_def list_all_iff)
  obtain t P where "prog_run script_marked_states (init_state [7] ''sim'' None (replicate 10000 3)) = Some t"
    "pc t = Done" "Plot P \<in> set (out t)" "4 \<notin> set (replicate 10000 (3::nat)) \<longrightarrow> P = [(''11'', 1)]"
    using script_plot [OF search len exact] by blast
  then show ?thesis using search by auto
qed

end
